theory Spec2Isabelle
  imports Complex_Main "HOL-Library.Monad_Syntax"
begin

section \<open>ROAM terrain patches of the Spring engine (Map/SMF/ROAM/Patch.cpp)\<close>

text \<open>
  A shallow embedding of \<^verbatim>\<open>Patch.cpp\<close>: the node pool \<^verbatim>\<open>CTriNodePool\<close>, the binary
  triangle tree with \<^verbatim>\<open>Patch::Split\<close>, the variance precomputation, the recursive
  tessellation and the extraction of indices and border vertices.

  Conventions.
  \<^item> A \<^verbatim>\<open>TriTreeNode*\<close> is a \<open>node_ref option\<close>; \<open>None\<close> is \<^verbatim>\<open>nullptr\<close>. A \<open>node_ref\<close>
    names the object pointed to, so pointer equality is equality of references.
  \<^item> Functions that walk the node graph run in the option monad: \<open>None\<close> stands for a
    call that does not return normally (a dereference of \<^verbatim>\<open>nullptr\<close> or of a pointer
    outside the pool, or a recursion that never ends).
  \<^item> \<^verbatim>\<open>int\<close> is modelled by \<open>int\<close> (tile coordinates are far from the 32-bit limits). A
    \<^verbatim>\<open>float\<close> held in the state is finite and is the \<open>real\<close> it denotes. The variance
    computation is read with exact arithmetic: its properties below are about comparisons,
    \<^verbatim>\<open>std::max\<close> and \<^verbatim>\<open>std::min\<close>. The products of \<^verbatim>\<open>RecursTessellate\<close>, whose rounding
    decides the test against the threshold, are computed in single precision.
  \<^item> \<^verbatim>\<open>PATCH_SIZE\<close>, \<^verbatim>\<open>VARIANCE_DEPTH\<close> are macros of \<^verbatim>\<open>Patch.h\<close>; they are parameters
    \<open>PS\<close> and \<open>VD\<close> of the functions that use them.
\<close>

subsection \<open>Tree nodes\<close>

datatype node_ref = PoolNode nat | BaseLeftRef | BaseRightRef | OtherNode nat

text \<open>
  \<open>PoolNode i\<close> is \<^verbatim>\<open>&pool[i]\<close> of the pool the patch currently allocates from,
  \<open>BaseLeftRef\<close> and \<open>BaseRightRef\<close> are \<^verbatim>\<open>&baseLeft\<close> and \<^verbatim>\<open>&baseRight\<close> of the patch, and
  \<open>OtherNode k\<close> is a node owned by somebody else (a root of a neighbouring patch, a
  node of another worker's pool).
\<close>

record TriTreeNode =
  LeftChild :: "node_ref option"
  RightChild :: "node_ref option"
  BaseNeighbor :: "node_ref option"
  LeftNeighbor :: "node_ref option"
  RightNeighbor :: "node_ref option"

text \<open>The node that \<^verbatim>\<open>TriTreeNode()\<close> constructs and that \<^verbatim>\<open>memset(.., 0, ..)\<close> leaves behind.\<close>

definition TriTreeNode_zero :: TriTreeNode where
  "TriTreeNode_zero =
     \<lparr>LeftChild = None, RightChild = None, BaseNeighbor = None,
      LeftNeighbor = None, RightNeighbor = None\<rparr>"

text \<open>
  Modelled from the spec: \<^verbatim>\<open>TriTreeNode::IsLeaf\<close> and \<^verbatim>\<open>TriTreeNode::IsBranch\<close> are declared
  in \<^verbatim>\<open>Patch.h\<close>. The spec: "a node is a leaf iff both child references are absent",
  "leaf/branch flag (implicit: has children or not)".
\<close>

definition IsLeaf :: "TriTreeNode \<Rightarrow> bool" where
  "IsLeaf n = (LeftChild n = None \<and> RightChild n = None)"

definition IsBranch :: "TriTreeNode \<Rightarrow> bool" where
  "IsBranch n = (\<not> IsLeaf n)"

subsection \<open>The node pool\<close>

record CTriNodePool =
  pool :: "TriTreeNode list"
  nextTriNodeIdx :: nat

text \<open>
  Modelled from the spec: \<^verbatim>\<open>CTriNodePool::OutOfNodes\<close> is declared in \<^verbatim>\<open>Patch.h\<close>. The spec:
  "a fixed-capacity, contiguous array of TriNodes plus a bump cursor", exhausted when the
  cursor has reached the capacity.
\<close>

definition OutOfNodes :: "CTriNodePool \<Rightarrow> bool" where
  "OutOfNodes p = (length (pool p) \<le> nextTriNodeIdx p)"

text \<open>
  The constructor. Its two assertions (\<^verbatim>\<open>poolSize\<close> even and positive) are compiled out
  of release builds; they are the predicate \<open>pool_size_ok\<close>.
\<close>

definition pool_size_ok :: "nat \<Rightarrow> bool" where
  "pool_size_ok poolSize = (even poolSize \<and> 0 < poolSize)"

definition CTriNodePool_ctor :: "nat \<Rightarrow> CTriNodePool" where
  "CTriNodePool_ctor poolSize =
     \<lparr>pool = replicate poolSize TriTreeNode_zero, nextTriNodeIdx = 0\<rparr>"

text \<open>
  \<^verbatim>\<open>Reset\<close>: the \<^verbatim>\<open>memset\<close> zeroes the entries below the cursor (for a cursor of 0 the
  guarded \<^verbatim>\<open>memset\<close> is skipped, and the map below changes nothing either).
\<close>

definition Reset :: "CTriNodePool \<Rightarrow> CTriNodePool" where
  "Reset p =
     \<lparr>pool = (if 0 < nextTriNodeIdx p
              then map (\<lambda>i. if i < nextTriNodeIdx p then TriTreeNode_zero else pool p ! i)
                     [0 ..< length (pool p)]
              else pool p),
      nextTriNodeIdx = 0\<rparr>"

text \<open>
  \<^verbatim>\<open>Allocate(left, right)\<close> returns its \<^verbatim>\<open>bool\<close>, the values written to the two reference
  parameters, and the pool.
\<close>

definition Allocate ::
  "CTriNodePool \<Rightarrow> bool \<times> node_ref option \<times> node_ref option \<times> CTriNodePool" where
  "Allocate p =
     (if OutOfNodes p then (False, None, None, p)
      else (True,
            Some (PoolNode (nextTriNodeIdx p)),
            Some (PoolNode (nextTriNodeIdx p + 1)),
            p\<lparr>nextTriNodeIdx := nextTriNodeIdx p + 2\<rparr>))"


subsection \<open>The patch\<close>

type_synonym int2 = "int \<times> int"
type_synonym float3 = "real \<times> real \<times> real"

text \<open>
  A border vertex \<^verbatim>\<open>VA_TYPE_C\<close>: a position and four colour bytes.
  \<^verbatim>\<open>currentVariance\<close> points at the first element of one of the two variance arrays.
\<close>

type_synonym VA_TYPE_C = "float3 \<times> nat list"

datatype variance_ref = VarianceLeft | VarianceRight

text \<open>
  The members of \<^verbatim>\<open>Patch\<close> that \<^verbatim>\<open>Patch.cpp\<close> uses. \<open>curTriPool\<close> holds the pool that
  the member pointer \<^verbatim>\<open>curTriPool\<close> points to (\<open>None\<close> for a null pointer), and
  \<open>otherNodes\<close> is the memory of the nodes outside this patch and its pool that the
  neighbour pointers can reach.
\<close>

record Patch =
  baseLeft :: TriTreeNode
  baseRight :: TriTreeNode
  varianceLeft :: "real list"
  varianceRight :: "real list"
  currentVariance :: "variance_ref option"
  isDirty :: bool
  isTesselated :: bool
  varianceMaxLimit :: real
  camDistLODFactor :: real
  coors :: int2
  vertices :: "real list"
  indices :: "int list"
  borderVertices :: "VA_TYPE_C list"
  curTriPool :: "CTriNodePool option"
  otherNodes :: "nat \<Rightarrow> TriTreeNode"

text \<open>
  \<^verbatim>\<open>Patch::Patch()\<close>. Modelled from the spec: the sizes of the arrays are declared in
  \<^verbatim>\<open>Patch.h\<close>; the spec gives a variance field the capacity \<open>2^D\<close> and a tile
  \<open>(S+1) \<times> (S+1)\<close> height samples (three floats per vertex). \<^verbatim>\<open>FLT_MAX\<close> is
  \<open>(2^24 - 1) * 2^104\<close>.
\<close>

definition Patch_ctor :: "int \<Rightarrow> nat \<Rightarrow> Patch" where
  "Patch_ctor PS VD =
     \<lparr>baseLeft = TriTreeNode_zero,
      baseRight = TriTreeNode_zero,
      varianceLeft = replicate (2 ^ VD) 0,
      varianceRight = replicate (2 ^ VD) 0,
      currentVariance = None,
      isDirty = True,
      isTesselated = False,
      varianceMaxLimit = (2 ^ 24 - 1) * 2 ^ 104,
      camDistLODFactor = 1,
      coors = (-1, -1),
      vertices = replicate (nat (3 * (PS + 1) * (PS + 1))) 0,
      indices = [],
      borderVertices = [],
      curTriPool = None,
      otherNodes = (\<lambda>k. TriTreeNode_zero)\<rparr>"

text \<open>\<^verbatim>\<open>Patch::Reset\<close>: both roots are fresh nodes, attached to each other.\<close>

definition Patch_Reset :: "Patch \<Rightarrow> Patch" where
  "Patch_Reset s =
     s\<lparr>baseLeft := TriTreeNode_zero\<lparr>BaseNeighbor := Some BaseRightRef\<rparr>,
       baseRight := TriTreeNode_zero\<lparr>BaseNeighbor := Some BaseLeftRef\<rparr>\<rparr>"

text \<open>Reading and writing the node a pointer refers to.\<close>

definition load :: "Patch \<Rightarrow> node_ref \<Rightarrow> TriTreeNode option" where
  "load s r =
     (case r of
        BaseLeftRef \<Rightarrow> Some (baseLeft s)
      | BaseRightRef \<Rightarrow> Some (baseRight s)
      | OtherNode k \<Rightarrow> Some (otherNodes s k)
      | PoolNode i \<Rightarrow>
          (case curTriPool s of
             None \<Rightarrow> None
           | Some pl \<Rightarrow> if i < length (pool pl) then Some (pool pl ! i) else None))"

definition store :: "Patch \<Rightarrow> node_ref \<Rightarrow> TriTreeNode \<Rightarrow> Patch option" where
  "store s r n =
     (case r of
        BaseLeftRef \<Rightarrow> Some (s\<lparr>baseLeft := n\<rparr>)
      | BaseRightRef \<Rightarrow> Some (s\<lparr>baseRight := n\<rparr>)
      | OtherNode k \<Rightarrow> Some (s\<lparr>otherNodes := (otherNodes s)(k := n)\<rparr>)
      | PoolNode i \<Rightarrow>
          (case curTriPool s of
             None \<Rightarrow> None
           | Some pl \<Rightarrow>
               if i < length (pool pl)
               then Some (s\<lparr>curTriPool := Some (pl\<lparr>pool := (pool pl)[i := n]\<rparr>)\<rparr>)
               else None))"

text \<open>An assignment \<^verbatim>\<open>r->field = v\<close> is \<open>modify s r (\<lambda>n. n\<lparr>field := v\<rparr>)\<close>.\<close>

definition modify :: "Patch \<Rightarrow> node_ref \<Rightarrow> (TriTreeNode \<Rightarrow> TriTreeNode) \<Rightarrow> Patch option" where
  "modify s r f = (case load s r of None \<Rightarrow> None | Some n \<Rightarrow> store s r (f n))"

subsection \<open>Variance computation\<close>

text \<open>
  \<^verbatim>\<open>GetHeight\<close> reads the y-coordinate of the vertex at a grid position. The index lies
  inside \<open>vertices\<close> for every position of the tile grid, and the recursion below only
  visits such positions when it starts from the tile's corners.
\<close>

definition GetHeight :: "int \<Rightarrow> real list \<Rightarrow> int2 \<Rightarrow> real" where
  "GetHeight PATCH_SIZE vs pos =
     (case pos of (px, py) \<Rightarrow> vs ! nat ((py * (PATCH_SIZE + 1) + px) * 3 + 1))"


text \<open>
  A measure for the recursion over triangles. Each axis is ranked by the extent \<open>d\<close>
  of the three coordinates and by a phase: every bisection step keeps the rank of an
  axis or lowers it, and lowers it when the hypotenuse spans at least 2 on that axis.
\<close>

definition axis_rank :: "int \<Rightarrow> int \<Rightarrow> int \<Rightarrow> nat" where
  "axis_rank l r a =
     (let d = max l (max r a) - min l (min r a)
      in nat (3 * d + (if d \<le> 1 then 0 else if \<bar>l - r\<bar> = d then (if a = l \<or> a = r then 1 else 0) else 2)))"

lemma orderings:
  fixes l r a :: int
  obtains "l \<le> r" "r \<le> a" | "l \<le> a" "a < r" | "a < l" "l \<le> r"
        | "r < l" "l \<le> a" | "r \<le> a" "a < l" | "a < r" "r < l"
  by linarith

lemma axis_rank_child1_le_aux:
  assumes "2 * m \<le> l + r" "l + r \<le> 2 * m + 1"
  shows "axis_rank a l m \<le> axis_rank l r a"
  by (rule orderings[of l r a]; insert assms;
      simp add: axis_rank_def Let_def max_def min_def abs_if split: if_splits; linarith?)

lemma axis_rank_child2_le_aux:
  assumes "2 * m \<le> l + r" "l + r \<le> 2 * m + 1"
  shows "axis_rank r a m \<le> axis_rank l r a"
  by (rule orderings[of l r a]; insert assms;
      simp add: axis_rank_def Let_def max_def min_def abs_if split: if_splits; linarith?)

lemma axis_rank_child1_less_aux:
  assumes "2 * m \<le> l + r" "l + r \<le> 2 * m + 1" "2 \<le> \<bar>l - r\<bar>"
  shows "axis_rank a l m < axis_rank l r a"
  by (rule orderings[of l r a]; insert assms;
      simp add: axis_rank_def Let_def max_def min_def abs_if split: if_splits; linarith?)

lemma axis_rank_child2_less_aux:
  assumes "2 * m \<le> l + r" "l + r \<le> 2 * m + 1" "2 \<le> \<bar>l - r\<bar>"
  shows "axis_rank r a m < axis_rank l r a"
  by (rule orderings[of l r a]; insert assms;
      simp add: axis_rank_def Let_def max_def min_def abs_if split: if_splits; linarith?)


definition tri_rank :: "int2 \<Rightarrow> int2 \<Rightarrow> int2 \<Rightarrow> nat" where
  "tri_rank left rght apex =
     axis_rank (fst left) (fst rght) (fst apex) + axis_rank (snd left) (snd rght) (snd apex)"

lemma tri_rank_child1:
  "2 \<le> \<bar>lx - rx\<bar> \<or> 2 \<le> \<bar>ly - ry\<bar> \<Longrightarrow>
   tri_rank (ax, ay) (lx, ly) ((lx + rx) div 2, (ly + ry) div 2) < tri_rank (lx, ly) (rx, ry) (ax, ay)"
  using axis_rank_child1_le_aux[of "(lx + rx) div 2" lx rx ax]
        axis_rank_child1_le_aux[of "(ly + ry) div 2" ly ry ay]
        axis_rank_child1_less_aux[of "(lx + rx) div 2" lx rx ax]
        axis_rank_child1_less_aux[of "(ly + ry) div 2" ly ry ay]
  unfolding tri_rank_def fst_conv snd_conv by linarith

lemma tri_rank_child2:
  "2 \<le> \<bar>lx - rx\<bar> \<or> 2 \<le> \<bar>ly - ry\<bar> \<Longrightarrow>
   tri_rank (rx, ry) (ax, ay) ((lx + rx) div 2, (ly + ry) div 2) < tri_rank (lx, ly) (rx, ry) (ax, ay)"
  using axis_rank_child2_le_aux[of "(lx + rx) div 2" lx rx ax]
        axis_rank_child2_le_aux[of "(ly + ry) div 2" ly ry ay]
        axis_rank_child2_less_aux[of "(lx + rx) div 2" lx rx ax]
        axis_rank_child2_less_aux[of "(ly + ry) div 2" ly ry ay]
  unfolding tri_rank_def fst_conv snd_conv by linarith


text \<open>
  \<^verbatim>\<open>RecursComputeVariance\<close>. The array that \<^verbatim>\<open>currentVariance\<close> points at is the
  argument \<open>cv\<close>, returned updated next to the variance of the node. \<^verbatim>\<open>node << 1\<close> is
  \<open>2 * node\<close>, \<^verbatim>\<open>(a + b) >> 1\<close> is \<open>(a + b) div 2\<close> (rounding down, as the arithmetic
  shift does).
\<close>

function RecursComputeVariance ::
  "int \<Rightarrow> nat \<Rightarrow> real list \<Rightarrow> real list \<Rightarrow> int2 \<Rightarrow> int2 \<Rightarrow> int2 \<Rightarrow> float3 \<Rightarrow> nat \<Rightarrow> real \<times> real list"
where
  "RecursComputeVariance PS VD vs cv (lx, ly) (rx, ry) (ax, ay) (hx, hy, hz) node =
     (let mpos = ((lx + rx) div 2, (ly + ry) div 2);
          mhgt = GetHeight PS vs mpos;
          myVariance = \<bar>mhgt - (hx + hy) * 0.5\<bar>;
          myVariance = (if hx * hy < 0 \<or> hx * mhgt < 0 \<or> hy * mhgt < 0
                        then max (myVariance * 1.5) 20 else myVariance);
          (myVariance, cv) =
            (if 4 \<le> \<bar>lx - rx\<bar> \<or> 4 \<le> \<bar>ly - ry\<bar> then
               (let (child1Variance, cv) =
                      RecursComputeVariance PS VD vs cv (ax, ay) (lx, ly) mpos (hz, hx, mhgt) (2 * node);
                    (child2Variance, cv) =
                      RecursComputeVariance PS VD vs cv (rx, ry) (ax, ay) mpos (hy, hz, mhgt) (2 * node + 1);
                    myVariance = max myVariance child1Variance;
                    myVariance = max myVariance child2Variance
                in (myVariance, cv))
             else (myVariance, cv));
          myVariance = max 0.001 myVariance;
          cv = (if node < 2 ^ VD then cv[node := myVariance] else cv)
      in (myVariance, cv))"
  by pat_completeness auto

termination RecursComputeVariance
  apply (relation "measure (\<lambda>(PS, VD, vs, cv, left, rght, apex, hgts, node). tri_rank left rght apex)")
    apply simp
   apply (simp, rule tri_rank_child1, linarith)
  apply (simp, rule tri_rank_child2, linarith)
  done


declare RecursComputeVariance.simps [simp del]

text \<open>
  The node indices that \<^verbatim>\<open>RecursComputeVariance\<close> is called with, in the order of the
  calls: the same recursion without the heights.
\<close>

function variance_nodes :: "int2 \<Rightarrow> int2 \<Rightarrow> int2 \<Rightarrow> nat \<Rightarrow> nat list" where
  "variance_nodes (lx, ly) (rx, ry) (ax, ay) node =
     node #
     (if 4 \<le> \<bar>lx - rx\<bar> \<or> 4 \<le> \<bar>ly - ry\<bar> then
        variance_nodes (ax, ay) (lx, ly) ((lx + rx) div 2, (ly + ry) div 2) (2 * node) @
        variance_nodes (rx, ry) (ax, ay) ((lx + rx) div 2, (ly + ry) div 2) (2 * node + 1)
      else [])"
  by pat_completeness auto
termination
  apply (relation "measure (\<lambda>(left, rght, apex, node). tri_rank left rght apex)")
    apply simp
   apply (simp, rule tri_rank_child1, linarith)
  apply (simp, rule tri_rank_child2, linarith)
  done

declare variance_nodes.simps [simp del]


text \<open>
  \<^verbatim>\<open>ComputeVariance\<close>: one recursion per base triangle, each writing through
  \<^verbatim>\<open>currentVariance\<close> into its own array.
\<close>

definition ComputeVariance :: "int \<Rightarrow> nat \<Rightarrow> Patch \<Rightarrow> Patch" where
  "ComputeVariance PS VD p =
     (let p = p\<lparr>currentVariance := Some VarianceLeft\<rparr>;
          left = (0, PS); rght = (PS, 0); apex = (0, 0);
          hgts = (GetHeight PS (vertices p) left, GetHeight PS (vertices p) rght,
                  GetHeight PS (vertices p) apex);
          p = p\<lparr>varianceLeft :=
                  snd (RecursComputeVariance PS VD (vertices p) (varianceLeft p)
                         left rght apex hgts 1)\<rparr>;
          p = p\<lparr>currentVariance := Some VarianceRight\<rparr>;
          left = (PS, 0); rght = (0, PS); apex = (PS, PS);
          hgts = (GetHeight PS (vertices p) left, GetHeight PS (vertices p) rght,
                  GetHeight PS (vertices p) apex);
          p = p\<lparr>varianceRight :=
                  snd (RecursComputeVariance PS VD (vertices p) (varianceRight p)
                         left rght apex hgts 1)\<rparr>
      in p\<lparr>isDirty := False\<rparr>)"

text \<open>
  Notions used to state facts about the recursion: the variance of one node before its
  children are taken into account, the guarded store, and the indices below a node of
  the implicit binary tree (node \<open>n\<close> has the children \<open>2n\<close> and \<open>2n + 1\<close>).
\<close>

definition own_variance :: "real \<Rightarrow> real \<Rightarrow> real \<Rightarrow> real" where
  "own_variance hx hy mhgt =
     (if hx * hy < 0 \<or> hx * mhgt < 0 \<or> hy * mhgt < 0
      then max (\<bar>mhgt - (hx + hy) * 0.5\<bar> * 1.5) 20 else \<bar>mhgt - (hx + hy) * 0.5\<bar>)"

definition store_variance :: "nat \<Rightarrow> real list \<Rightarrow> nat \<Rightarrow> real \<Rightarrow> real list" where
  "store_variance VD cv node v = (if node < 2 ^ VD then cv[node := v] else cv)"

definition in_subtree :: "nat \<Rightarrow> nat \<Rightarrow> bool" where
  "in_subtree n m = (\<exists>k. m div 2 ^ k = n)"


subsection \<open>Split\<close>

text \<open>
  The statements of \<^verbatim>\<open>Patch::Split\<close>, block by block. Every statement reads the nodes
  from the current state, as the C++ does, so aliasing between \<^verbatim>\<open>tri\<close>, its children and
  its neighbours is kept.

  Line 223, \<^verbatim>\<open>curTriPool->Allocate(tri->LeftChild, tri->RightChild)\<close>: the result of
  \<^verbatim>\<open>Allocate\<close> and the state in which the pool cursor has moved and both child fields of
  \<^verbatim>\<open>tri\<close> have been written (with null on exhaustion).
\<close>

definition allocate_children :: "Patch \<Rightarrow> node_ref \<Rightarrow> (bool \<times> Patch) option" where
  "allocate_children s tri = do {
     pl \<leftarrow> curTriPool s;
     t \<leftarrow> load s tri;
     (case Allocate pl of
        (ok, l, r, pl') \<Rightarrow> do {
          s \<leftarrow> store (s\<lparr>curTriPool := Some pl'\<rparr>) tri (t\<lparr>LeftChild := l, RightChild := r\<rparr>);
          Some (ok, s)
        })
   }"

text \<open>Lines 229 to 233: the children take over the neighbours of the parent.\<close>

definition link_children :: "Patch \<Rightarrow> node_ref \<Rightarrow> Patch option" where
  "link_children s tri = do {
     t \<leftarrow> load s tri; lc \<leftarrow> LeftChild t;
     s \<leftarrow> modify s lc (\<lambda>n. n\<lparr>BaseNeighbor := LeftNeighbor t\<rparr>);
     t \<leftarrow> load s tri; lc \<leftarrow> LeftChild t;
     s \<leftarrow> modify s lc (\<lambda>n. n\<lparr>LeftNeighbor := RightChild t\<rparr>);
     t \<leftarrow> load s tri; rc \<leftarrow> RightChild t;
     s \<leftarrow> modify s rc (\<lambda>n. n\<lparr>BaseNeighbor := RightNeighbor t\<rparr>);
     t \<leftarrow> load s tri; rc \<leftarrow> RightChild t;
     modify s rc (\<lambda>n. n\<lparr>RightNeighbor := LeftChild t\<rparr>)
   }"

text \<open>Lines 236 to 245: the left neighbour is pointed at the new left child.\<close>

definition relink_left :: "Patch \<Rightarrow> node_ref \<Rightarrow> Patch option" where
  "relink_left s tri = do {
     t \<leftarrow> load s tri;
     (case LeftNeighbor t of
        None \<Rightarrow> Some s
      | Some nb \<Rightarrow> do {
          n \<leftarrow> load s nb;
          if BaseNeighbor n = Some tri then modify s nb (\<lambda>n. n\<lparr>BaseNeighbor := LeftChild t\<rparr>)
          else if LeftNeighbor n = Some tri then modify s nb (\<lambda>n. n\<lparr>LeftNeighbor := LeftChild t\<rparr>)
          else if RightNeighbor n = Some tri then modify s nb (\<lambda>n. n\<lparr>RightNeighbor := LeftChild t\<rparr>)
          else Some s
        })
   }"

text \<open>Lines 248 to 257: the right neighbour is pointed at the new right child.\<close>

definition relink_right :: "Patch \<Rightarrow> node_ref \<Rightarrow> Patch option" where
  "relink_right s tri = do {
     t \<leftarrow> load s tri;
     (case RightNeighbor t of
        None \<Rightarrow> Some s
      | Some nb \<Rightarrow> do {
          n \<leftarrow> load s nb;
          if BaseNeighbor n = Some tri then modify s nb (\<lambda>n. n\<lparr>BaseNeighbor := RightChild t\<rparr>)
          else if RightNeighbor n = Some tri then modify s nb (\<lambda>n. n\<lparr>RightNeighbor := RightChild t\<rparr>)
          else if LeftNeighbor n = Some tri then modify s nb (\<lambda>n. n\<lparr>LeftNeighbor := RightChild t\<rparr>)
          else Some s
        })
   }"

text \<open>Lines 229 to 257 together.\<close>

definition link_into_mesh :: "Patch \<Rightarrow> node_ref \<Rightarrow> Patch option" where
  "link_into_mesh s tri = do {
     s \<leftarrow> link_children s tri;
     s \<leftarrow> relink_left s tri;
     relink_right s tri
   }"

text \<open>Lines 262 to 266: the base neighbour is a branch, the four children are cross-linked.\<close>

definition cross_link :: "Patch \<Rightarrow> node_ref \<Rightarrow> Patch option" where
  "cross_link s tri = do {
     t \<leftarrow> load s tri; b \<leftarrow> BaseNeighbor t; bn \<leftarrow> load s b; blc \<leftarrow> LeftChild bn;
     s \<leftarrow> modify s blc (\<lambda>n. n\<lparr>RightNeighbor := RightChild t\<rparr>);
     t \<leftarrow> load s tri; b \<leftarrow> BaseNeighbor t; bn \<leftarrow> load s b; brc \<leftarrow> RightChild bn;
     s \<leftarrow> modify s brc (\<lambda>n. n\<lparr>LeftNeighbor := LeftChild t\<rparr>);
     t \<leftarrow> load s tri; lc \<leftarrow> LeftChild t; b \<leftarrow> BaseNeighbor t; bn \<leftarrow> load s b;
     s \<leftarrow> modify s lc (\<lambda>n. n\<lparr>RightNeighbor := RightChild bn\<rparr>);
     t \<leftarrow> load s tri; rc \<leftarrow> RightChild t; b \<leftarrow> BaseNeighbor t; bn \<leftarrow> load s b;
     modify s rc (\<lambda>n. n\<lparr>LeftNeighbor := LeftChild bn\<rparr>)
   }"

text \<open>Lines 273 and 274: an edge triangle, the outward neighbours of the children are null.\<close>

definition clear_outward :: "Patch \<Rightarrow> node_ref \<Rightarrow> Patch option" where
  "clear_outward s tri = do {
     t \<leftarrow> load s tri; lc \<leftarrow> LeftChild t;
     s \<leftarrow> modify s lc (\<lambda>n. n\<lparr>RightNeighbor := None\<rparr>);
     t \<leftarrow> load s tri; rc \<leftarrow> RightChild t;
     modify s rc (\<lambda>n. n\<lparr>LeftNeighbor := None\<rparr>)
   }"

text \<open>
  \<^verbatim>\<open>Patch::Split\<close>. The results of the two recursive calls (lines 220 and 269) are
  dropped, as in the source; the \<^verbatim>\<open>assert\<close> of line 226 is compiled out of release builds.
\<close>

partial_function (option) Split :: "Patch \<Rightarrow> node_ref \<Rightarrow> (bool \<times> Patch) option" where
  "Split s tri = do {
     t \<leftarrow> load s tri;
     if \<not> IsLeaf t then Some (True, s)
     else do {
       s \<leftarrow> (case BaseNeighbor t of
               None \<Rightarrow> Some s
             | Some b \<Rightarrow> do {
                 bn \<leftarrow> load s b;
                 if BaseNeighbor bn \<noteq> Some tri
                 then do { forced \<leftarrow> Split s b; Some (snd forced) }
                 else Some s
               });
       allocated \<leftarrow> allocate_children s tri;
       if \<not> fst allocated then Some (False, snd allocated)
       else do {
         s \<leftarrow> link_into_mesh (snd allocated) tri;
         t \<leftarrow> load s tri;
         (case BaseNeighbor t of
            Some b \<Rightarrow> do {
              bn \<leftarrow> load s b;
              if IsBranch bn then do { s \<leftarrow> cross_link s tri; Some (True, s) }
              else do { cascaded \<leftarrow> Split s b; Some (True, snd cascaded) }
            }
          | None \<Rightarrow> do { s \<leftarrow> clear_outward s tri; Some (True, s) })
       }
     }
   }"

text \<open>
  The state in which line 223 is reached: the state after the forced split of lines 219
  and 220 when the base neighbour does not point back, the entry state otherwise.
\<close>

definition before_allocation :: "Patch \<Rightarrow> node_ref \<Rightarrow> Patch option" where
  "before_allocation s tri = do {
     t \<leftarrow> load s tri;
     (case BaseNeighbor t of
        None \<Rightarrow> Some s
      | Some b \<Rightarrow> do {
          bn \<leftarrow> load s b;
          if BaseNeighbor bn \<noteq> Some tri
          then do { forced \<leftarrow> Split s b; Some (snd forced) }
          else Some s
        })
   }"


text \<open>
  Example states: a patch of 128 by 128 squares right after \<^verbatim>\<open>Patch::Reset\<close>, its two roots
  forming a diamond, with a pool selected as \<^verbatim>\<open>Tessellate\<close> does; the pool has two nodes,
  none of them issued. \<open>diamond_allocated\<close> and \<open>diamond_linked\<close> are the states that
  \<^verbatim>\<open>Split(&baseLeft)\<close> reaches after line 223 and after line 257.
\<close>

definition fresh_patch :: "CTriNodePool \<Rightarrow> Patch" where
  "fresh_patch pl = (Patch_Reset (Patch_ctor 128 12))\<lparr>curTriPool := Some pl\<rparr>"

definition diamond_before :: Patch where
  "diamond_before = fresh_patch \<lparr>pool = [TriTreeNode_zero, TriTreeNode_zero], nextTriNodeIdx = 0\<rparr>"

definition diamond_allocated :: Patch where
  "diamond_allocated =
     diamond_before
       \<lparr>baseLeft := TriTreeNode_zero
          \<lparr>LeftChild := Some (PoolNode 0), RightChild := Some (PoolNode 1),
           BaseNeighbor := Some BaseRightRef\<rparr>,
        curTriPool := Some \<lparr>pool = [TriTreeNode_zero, TriTreeNode_zero], nextTriNodeIdx = 2\<rparr>\<rparr>"

definition diamond_linked :: Patch where
  "diamond_linked =
     diamond_allocated
       \<lparr>curTriPool := Some
          \<lparr>pool = [TriTreeNode_zero\<lparr>LeftNeighbor := Some (PoolNode 1)\<rparr>,
                   TriTreeNode_zero\<lparr>RightNeighbor := Some (PoolNode 0)\<rparr>],
           nextTriNodeIdx = 2\<rparr>\<rparr>"

definition exhausted_patch :: Patch where
  "exhausted_patch = fresh_patch \<lparr>pool = [TriTreeNode_zero, TriTreeNode_zero], nextTriNodeIdx = 2\<rparr>"

text \<open>
  The same exhausted patch with its left root on a coarser neighbour: the base neighbour
  of \<open>baseLeft\<close> is a leaf of another patch whose own base edge lies elsewhere, so that
  \<^verbatim>\<open>Split(&baseLeft)\<close> first forces \<^verbatim>\<open>Split\<close> of that neighbour (line 220).
\<close>

definition hanging_patch :: Patch where
  "hanging_patch =
     exhausted_patch\<lparr>baseLeft := TriTreeNode_zero\<lparr>BaseNeighbor := Some (OtherNode 0)\<rparr>\<rparr>"

text \<open>
  The left root on a coarser neighbour while the pool still has its two nodes: the
  neighbour is a leaf on the edge of the mesh with \<open>baseLeft\<close> on its left side.
  \<open>hanging_forced\<close> is the state after the forced split of the neighbour (line 220), which
  takes both nodes and points \<open>baseLeft\<close> at the neighbour's new left child.
\<close>

definition hanging_before :: Patch where
  "hanging_before =
     diamond_before
       \<lparr>baseLeft := TriTreeNode_zero\<lparr>BaseNeighbor := Some (OtherNode 0)\<rparr>,
        otherNodes := (\<lambda>k. TriTreeNode_zero)(0 := TriTreeNode_zero\<lparr>LeftNeighbor := Some BaseLeftRef\<rparr>)\<rparr>"

definition hanging_forced :: Patch where
  "hanging_forced =
     hanging_before
       \<lparr>baseLeft := TriTreeNode_zero\<lparr>BaseNeighbor := Some (PoolNode 0)\<rparr>,
        otherNodes := (\<lambda>k. TriTreeNode_zero)
          (0 := TriTreeNode_zero\<lparr>LeftChild := Some (PoolNode 0), RightChild := Some (PoolNode 1),
                                 LeftNeighbor := Some BaseLeftRef\<rparr>),
        curTriPool := Some
          \<lparr>pool = [TriTreeNode_zero\<lparr>LeftNeighbor := Some (PoolNode 1),
                                     BaseNeighbor := Some BaseLeftRef\<rparr>,
                   TriTreeNode_zero\<lparr>RightNeighbor := Some (PoolNode 0)\<rparr>],
           nextTriNodeIdx = 2\<rparr>\<rparr>"

text \<open>
  The number of nodes of the selected pool. No statement of \<^verbatim>\<open>Split\<close> changes it, so a
  pointer that refers to a node on entry still does after any call.
\<close>

definition pool_extent :: "Patch \<Rightarrow> nat option" where
  "pool_extent s = map_option (\<lambda>pl. length (pool pl)) (curTriPool s)"

subsection \<open>Tessellation\<close>

text \<open>The array that \<^verbatim>\<open>currentVariance\<close> points at; reading through a null pointer is undefined.\<close>

definition variance_array :: "Patch \<Rightarrow> real list option" where
  "variance_array s =
     (case currentVariance s of
        None \<Rightarrow> None
      | Some VarianceLeft \<Rightarrow> Some (varianceLeft s)
      | Some VarianceRight \<Rightarrow> Some (varianceRight s))"

text \<open>
  The arithmetic of line 300 is that of the C++ type \<^verbatim>\<open>float\<close>, IEEE 754 binary32: every
  product is rounded to the nearest value with a significand of 24 bits, ties to the even
  significand, exponents from \<open>-126\<close> to \<open>127\<close>, gradual underflow below and infinity
  above. A finite value is kept as the real number it denotes; the sign of a zero is
  dropped, since neither a product of nonzero values nor a comparison depends on it.
\<close>

datatype float = Finite real | PlusInf | MinusInf | NaN

text \<open>
  The exponent of the binade of \<open>x\<close>, searched downwards from 127; everything below
  \<open>2^-125\<close> shares the exponent \<open>-126\<close> of the smallest normal values and the subnormal ones.
\<close>

fun float_exponent_from :: "nat \<Rightarrow> real \<Rightarrow> int" where
  "float_exponent_from 0 x = - 126"
| "float_exponent_from (Suc n) x =
     (if 2 powi (int n - 125) \<le> x then int n - 125 else float_exponent_from n x)"

definition float_exponent :: "real \<Rightarrow> int" where
  "float_exponent x = float_exponent_from 253 \<bar>x\<bar>"

definition round_half_even :: "real \<Rightarrow> int" where
  "round_half_even q =
     (let f = \<lfloor>q\<rfloor>; d = q - of_int f
      in if d < 1 / 2 then f else if 1 / 2 < d then f + 1 else if even f then f else f + 1)"

text \<open>Rounding of an exact result: to a multiple of the unit in the last place of its binade.\<close>

definition float_round :: "real \<Rightarrow> float" where
  "float_round x =
     (let ulp = 2 powi (float_exponent x - 23);
          y = of_int (round_half_even (x / ulp)) * ulp
      in if 2 ^ 128 \<le> y then PlusInf else if y \<le> - (2 ^ 128) then MinusInf else Finite y)"

fun float_negative :: "float \<Rightarrow> bool" where
  "float_negative (Finite x) = (x < 0)"
| "float_negative PlusInf = False"
| "float_negative MinusInf = True"
| "float_negative NaN = False"

text \<open>
  The product of two floats: rounded when both are finite; with an infinite operand it is
  NaN when the other one is zero or NaN, and the infinity of the product's sign otherwise.
\<close>

fun float_mul :: "float \<Rightarrow> float \<Rightarrow> float" where
  "float_mul (Finite x) (Finite y) = float_round (x * y)"
| "float_mul a b =
     (if a = NaN \<or> b = NaN \<or> a = Finite 0 \<or> b = Finite 0 then NaN
      else if float_negative a = float_negative b then PlusInf else MinusInf)"

text \<open>The comparison \<^verbatim>\<open><=\<close>, false whenever an operand is NaN.\<close>

fun float_le :: "float \<Rightarrow> float \<Rightarrow> bool" where
  "float_le (Finite x) (Finite y) = (x \<le> y)"
| "float_le (Finite x) PlusInf = True"
| "float_le (Finite x) MinusInf = False"
| "float_le PlusInf (Finite y) = False"
| "float_le PlusInf PlusInf = True"
| "float_le PlusInf MinusInf = False"
| "float_le MinusInf (Finite y) = True"
| "float_le MinusInf PlusInf = True"
| "float_le MinusInf MinusInf = True"
| "float_le NaN b = False"
| "float_le a NaN = False"

text \<open>The conversion of an \<^verbatim>\<open>int\<close> operand to \<^verbatim>\<open>float\<close>.\<close>

definition float_of_int :: "int \<Rightarrow> float" where
  "float_of_int i = float_round (real_of_int i)"

text \<open>
  Lines 289 to 301 of \<^verbatim>\<open>RecursTessellate\<close>: the value of the local \<^verbatim>\<open>triVariance\<close> when
  line 304 tests it. The stored error, the variance ceiling and the LOD factor are finite
  floats of the state; \<^verbatim>\<open>std::min\<close> of two of them is exact, and each of the three
  products, taken from left to right, is rounded.
\<close>

definition triVariance :: "int \<Rightarrow> nat \<Rightarrow> Patch \<Rightarrow> int2 \<Rightarrow> int2 \<Rightarrow> nat \<Rightarrow> float option" where
  "triVariance PS VD s left right node =
     (if node < 2 ^ VD then do {
        cv \<leftarrow> variance_array s;
        if node < length cv then
          (let sizeX = max (fst left - fst right) (fst right - fst left);
               sizeY = max (snd left - snd right) (snd right - snd left);
               size = max sizeX sizeY
           in Some (float_mul
                      (float_mul
                         (float_mul (Finite (min (cv ! node) (varianceMaxLimit s))) (float_of_int PS))
                         (float_of_int size))
                      (Finite (camDistLODFactor s))))
        else None
      }
      else Some (Finite 10))"

partial_function (option) RecursTessellate ::
  "int \<Rightarrow> nat \<Rightarrow> Patch \<Rightarrow> node_ref \<Rightarrow> int2 \<Rightarrow> int2 \<Rightarrow> int2 \<Rightarrow> nat \<Rightarrow> Patch option"
where
  "RecursTessellate PS VD s tri left right apex node =
     (if \<bar>fst left - fst right\<bar> \<le> 1 \<and> \<bar>snd left - snd right\<bar> \<le> 1 then Some s
      else do {
        v \<leftarrow> triVariance PS VD s left right node;
        if float_le v (Finite 1) then Some s
        else do {
          split \<leftarrow> Split s tri;
          t \<leftarrow> load (snd split) tri;
          if IsBranch t then do {
            lc \<leftarrow> LeftChild t;
            s1 \<leftarrow> RecursTessellate PS VD (snd split) lc apex left
                    ((fst left + fst right) div 2, (snd left + snd right) div 2) (2 * node);
            t1 \<leftarrow> load s1 tri;
            rc \<leftarrow> RightChild t1;
            RecursTessellate PS VD s1 rc right apex
              ((fst left + fst right) div 2, (snd left + snd right) div 2) (2 * node + 1)
          }
          else Some (snd split)
        }
      })"

subsection \<open>Index and border extraction\<close>

definition vertex_index :: "int \<Rightarrow> int2 \<Rightarrow> int" where
  "vertex_index PS pos = fst pos + snd pos * (PS + 1)"

partial_function (option) RecursGenIndices ::
  "int \<Rightarrow> Patch \<Rightarrow> node_ref \<Rightarrow> int2 \<Rightarrow> int2 \<Rightarrow> int2 \<Rightarrow> Patch option"
where
  "RecursGenIndices PS s tri left right apex = do {
     t \<leftarrow> load s tri;
     if IsLeaf t then
       Some (s\<lparr>indices := indices s @
                 [vertex_index PS apex, vertex_index PS left, vertex_index PS right]\<rparr>)
     else do {
       lc \<leftarrow> LeftChild t;
       s1 \<leftarrow> RecursGenIndices PS s lc apex left
               ((fst left + fst right) div 2, (snd left + snd right) div 2);
       t1 \<leftarrow> load s1 tri;
       rc \<leftarrow> RightChild t1;
       RecursGenIndices PS s1 rc right apex
         ((fst left + fst right) div 2, (snd left + snd right) div 2)
     }
   }"

definition GenerateIndices :: "int \<Rightarrow> Patch \<Rightarrow> Patch option" where
  "GenerateIndices PS s = do {
     s1 \<leftarrow> RecursGenIndices PS (s\<lparr>indices := []\<rparr>) BaseLeftRef (0, PS) (PS, 0) (0, 0);
     RecursGenIndices PS s1 BaseRightRef (PS, 0) (0, PS) (PS, PS)
   }"

text \<open>
  \<^verbatim>\<open>*(float3*) &vertices[i * 3]\<close>: the three floats of vertex \<open>i\<close>; outside the array the
  read is undefined.
\<close>

definition vertex_at :: "int \<Rightarrow> Patch \<Rightarrow> int2 \<Rightarrow> float3 option" where
  "vertex_at PS s pos =
     (let i = vertex_index PS pos * 3
      in if 0 \<le> i \<and> nat i + 2 < length (vertices s)
         then Some (vertices s ! nat i, vertices s ! (nat i + 1), vertices s ! (nat i + 2))
         else None)"

definition white :: "nat list" where "white = [255, 255, 255, 255]"
definition trans :: "nat list" where "trans = [255, 255, 255, 0]"

text \<open>
  The six vertices of one skirt quad between the vertices \<open>a\<close> and \<open>b\<close>, as the three
  blocks of \<^verbatim>\<open>push_back\<close> calls write them.
\<close>

definition skirt :: "float3 \<Rightarrow> float3 \<Rightarrow> VA_TYPE_C list" where
  "skirt a b =
     (case a of (a_x, a_y, a_z) \<Rightarrow> case b of (b_x, b_y, b_z) \<Rightarrow>
        [(a, white), ((a_x, - 400, a_z), trans), ((b_x, b_y, b_z), white),
         ((a_x, - 400, a_z), trans), ((b_x, - 400, b_z), trans), (b, white)])"

text \<open>
  \<^verbatim>\<open>depth\<close> is an \<^verbatim>\<open>int2\<close> whose second component holds a \<^verbatim>\<open>bool\<close>: \<^verbatim>\<open>true\<close> is 1 and
  \<^verbatim>\<open>!depth.y\<close> is 1 exactly when \<^verbatim>\<open>depth.y\<close> is 0.
\<close>

partial_function (option) RecursGenBorderVertices ::
  "int \<Rightarrow> Patch \<Rightarrow> node_ref \<Rightarrow> int2 \<Rightarrow> int2 \<Rightarrow> int2 \<Rightarrow> int2 \<Rightarrow> Patch option"
where
  "RecursGenBorderVertices PS s tri left rght apex depth = do {
     t \<leftarrow> load s tri;
     if IsLeaf t then do {
       v1 \<leftarrow> vertex_at PS s apex;
       v2 \<leftarrow> vertex_at PS s left;
       v3 \<leftarrow> vertex_at PS s rght;
       if even (fst depth) then Some (s\<lparr>borderVertices := borderVertices s @ skirt v2 v3\<rparr>)
       else if snd depth \<noteq> 0 then Some (s\<lparr>borderVertices := borderVertices s @ skirt v1 v2\<rparr>)
       else Some (s\<lparr>borderVertices := borderVertices s @ skirt v3 v1\<rparr>)
     }
     else if even (fst depth) then do {
       lc \<leftarrow> LeftChild t;
       s1 \<leftarrow> RecursGenBorderVertices PS s lc apex left
               ((fst left + fst rght) div 2, (snd left + snd rght) div 2)
               (fst depth + 1, if snd depth = 0 then 1 else 0);
       t1 \<leftarrow> load s1 tri;
       rc \<leftarrow> RightChild t1;
       RecursGenBorderVertices PS s1 rc rght apex
         ((fst left + fst rght) div 2, (snd left + snd rght) div 2)
         (fst depth + 1, snd depth)
     }
     else if snd depth \<noteq> 0 then do {
       lc \<leftarrow> LeftChild t;
       RecursGenBorderVertices PS s lc apex left
         ((fst left + fst rght) div 2, (snd left + snd rght) div 2) (fst depth + 1, 1)
     }
     else do {
       rc \<leftarrow> RightChild t;
       RecursGenBorderVertices PS s rc rght apex
         ((fst left + fst rght) div 2, (snd left + snd rght) div 2) (fst depth + 1, 1)
     }
   }"

definition GenerateBorderVertices :: "int \<Rightarrow> Patch \<Rightarrow> Patch option" where
  "GenerateBorderVertices PS s =
     (if \<not> isTesselated s then Some s
      else do {
        s1 \<leftarrow> Some (s\<lparr>isTesselated := False, borderVertices := []\<rparr>);
        s2 \<leftarrow> (if LeftNeighbor (baseLeft s1) = None
                then RecursGenBorderVertices PS s1 BaseLeftRef (0, PS) (PS, 0) (0, 0) (1, 1)
                else Some s1);
        s3 \<leftarrow> (if RightNeighbor (baseLeft s2) = None
                then RecursGenBorderVertices PS s2 BaseLeftRef (0, PS) (PS, 0) (0, 0) (1, 0)
                else Some s2);
        s4 \<leftarrow> (if RightNeighbor (baseRight s3) = None
                then RecursGenBorderVertices PS s3 BaseRightRef (PS, 0) (0, PS) (PS, PS) (1, 0)
                else Some s3);
        (if LeftNeighbor (baseRight s4) = None
         then RecursGenBorderVertices PS s4 BaseRightRef (PS, 0) (0, PS) (PS, PS) (1, 1)
         else Some s4)
      })"

text \<open>\<^verbatim>\<open>Patch::Tessellate\<close> sets the flag that \<^verbatim>\<open>GenerateBorderVertices\<close> consumes (line 543).\<close>

definition mark_tessellated :: "Patch \<Rightarrow> Patch" where
  "mark_tessellated s = s\<lparr>isTesselated := True\<rparr>"

subsection \<open>The pools of all workers\<close>

text \<open>
  The file-level state: \<^verbatim>\<open>CUR_POOL_SIZE\<close>, \<^verbatim>\<open>MAX_POOL_SIZE\<close> and the vector of pools of
  each pass (\<^verbatim>\<open>pools[shadowPass]\<close>). \<^verbatim>\<open>size_t\<close> arithmetic wraps at \<open>2^64\<close>.
\<close>

record PoolGlobals =
  CUR_POOL_SIZE :: nat
  MAX_POOL_SIZE :: nat
  pools :: "bool \<Rightarrow> CTriNodePool list"

definition size_t :: "nat \<Rightarrow> nat" where
  "size_t n = n mod 2 ^ 64"

text \<open>Lines 34 and 41: the size of each worker's pool, rounded up to an even number.\<close>

definition thread_pool_size :: "nat \<Rightarrow> nat \<Rightarrow> nat" where
  "thread_pool_size numThreads newPoolSize =
     (let thrPoolSize = max (newPoolSize div numThreads) (newPoolSize div 3)
      in size_t (thrPoolSize + thrPoolSize mod 2))"

text \<open>Line 47: the size that is tried next, and becomes the cap, after a failed allocation.\<close>

definition reduced :: "nat \<Rightarrow> nat" where
  "reduced newPoolSize = newPoolSize - newPoolSize div 4"

text \<open>
  \<^verbatim>\<open>InitPools\<close>. Two things come from outside the file and are parameters: \<open>numThreads\<close>,
  the value of \<^verbatim>\<open>ThreadPool::GetMaxThreads()\<close>, and \<open>alloc_ok n size\<close>, which says whether
  building \<open>n\<close> pools of \<open>size\<close> nodes succeeds; when it does not, \<^verbatim>\<open>std::bad_alloc\<close> is
  caught and the function calls itself with three quarters of the size, which also
  becomes \<^verbatim>\<open>MAX_POOL_SIZE\<close>. The vector is cleared before anything is allocated, and every
  call clears it again, so what a failed attempt leaves in it is never seen. A division
  by \<open>numThreads = 0\<close> is undefined.
\<close>

partial_function (option) InitPools ::
  "(nat \<Rightarrow> nat \<Rightarrow> bool) \<Rightarrow> nat \<Rightarrow> PoolGlobals \<Rightarrow> bool \<Rightarrow> nat \<Rightarrow> PoolGlobals option"
where
  "InitPools alloc_ok numThreads g shadowPass newPoolSize =
     (if numThreads = 0 then None
      else if alloc_ok numThreads (thread_pool_size numThreads newPoolSize) then
        Some (g\<lparr>CUR_POOL_SIZE := newPoolSize,
                pools := (pools g)(shadowPass :=
                  replicate numThreads
                    (CTriNodePool_ctor (thread_pool_size numThreads newPoolSize)))\<rparr>)
      else
        InitPools alloc_ok numThreads
          (g\<lparr>CUR_POOL_SIZE := newPoolSize,
             MAX_POOL_SIZE := newPoolSize - newPoolSize div 4,
             pools := (pools g)(shadowPass := [])\<rparr>)
          shadowPass (newPoolSize - newPoolSize div 4))"

text \<open>
  \<^verbatim>\<open>ResetAll\<close>: the loop asks every pool whether it ran out of nodes, just before it
  resets that pool.
\<close>

definition ResetAll ::
  "(nat \<Rightarrow> nat \<Rightarrow> bool) \<Rightarrow> nat \<Rightarrow> PoolGlobals \<Rightarrow> bool \<Rightarrow> PoolGlobals option"
where
  "ResetAll alloc_ok numThreads g shadowPass =
     (let outOfNodes = list_ex OutOfNodes (pools g shadowPass);
          g = g\<lparr>pools := (pools g)(shadowPass := map Reset (pools g shadowPass))\<rparr>
      in if \<not> outOfNodes then Some g
         else if MAX_POOL_SIZE g \<le> CUR_POOL_SIZE g then Some g
         else InitPools alloc_ok numThreads g shadowPass
                (min (size_t (CUR_POOL_SIZE g * 2)) (MAX_POOL_SIZE g)))"

text \<open>
  Example states. \<open>threshold_patch\<close>: the fresh diamond with the left variance array
  selected, a stored error of 1 at the root, the variance ceiling of a view radius of 100
  and a camera so far away that the LOD factor is \<open>2^-14\<close>. \<open>flat_patch\<close>: the same with all
  stored errors 0. \<open>border_done\<close>: the fresh diamond, a tile with no neighbours, after
  its border vertices were generated. \<open>example_globals\<close>: two workers, a main pass whose
  second pool is exhausted, a cap of 64.
\<close>

definition threshold_patch :: Patch where
  "threshold_patch =
     diamond_before
       \<lparr>currentVariance := Some VarianceLeft,
        varianceLeft := (replicate (2 ^ 12) 0)[1 := 1],
        varianceMaxLimit := 35,
        camDistLODFactor := 1 / 16384\<rparr>"

definition flat_patch :: Patch where
  "flat_patch = diamond_before\<lparr>currentVariance := Some VarianceLeft\<rparr>"

text \<open>
  \<open>rounding_patch\<close>: a stored error of 3 and the LOD factor \<^verbatim>\<open>1.0f / 49152.0f\<close>, which is
  \<open>11184811 * 2^-39\<close>; the exact product with 128 and 128 is \<open>1 + 2^-25\<close>, the float
  product is 1. \<open>steep_patch\<close>: a stored error of 2 at the root, where the tested value is
  2; \<open>steep_linked\<close> is that patch with its left root split.
\<close>

definition rounding_patch :: Patch where
  "rounding_patch =
     threshold_patch
       \<lparr>varianceLeft := (replicate (2 ^ 12) 0)[1 := 3],
        camDistLODFactor := 11184811 / 549755813888\<rparr>"

definition steep_patch :: Patch where
  "steep_patch = threshold_patch\<lparr>varianceLeft := (replicate (2 ^ 12) 0)[1 := 2]\<rparr>"

definition steep_linked :: Patch where
  "steep_linked =
     steep_patch
       \<lparr>baseLeft := TriTreeNode_zero
          \<lparr>LeftChild := Some (PoolNode 0), RightChild := Some (PoolNode 1),
           BaseNeighbor := Some BaseRightRef\<rparr>,
        curTriPool := Some
          \<lparr>pool = [TriTreeNode_zero\<lparr>LeftNeighbor := Some (PoolNode 1)\<rparr>,
                   TriTreeNode_zero\<lparr>RightNeighbor := Some (PoolNode 0)\<rparr>],
           nextTriNodeIdx = 2\<rparr>\<rparr>"

definition border_done :: Patch where
  "border_done =
     diamond_before
       \<lparr>isTesselated := False,
        borderVertices :=
          skirt (0, 0, 0) (0, 0, 0) @ skirt (0, 0, 0) (0, 0, 0) @
          skirt (0, 0, 0) (0, 0, 0) @ skirt (0, 0, 0) (0, 0, 0)\<rparr>"

definition example_globals :: PoolGlobals where
  "example_globals =
     \<lparr>CUR_POOL_SIZE = 8, MAX_POOL_SIZE = 64,
      pools = (\<lambda>shadowPass.
        if shadowPass then [CTriNodePool_ctor 4, CTriNodePool_ctor 4]
        else [\<lparr>pool = [TriTreeNode_zero, TriTreeNode_zero, TriTreeNode_zero, TriTreeNode_zero],
               nextTriNodeIdx = 2\<rparr>,
              \<lparr>pool = [TriTreeNode_zero\<lparr>LeftNeighbor := Some (PoolNode 1)\<rparr>,
                       TriTreeNode_zero\<lparr>RightNeighbor := Some (PoolNode 0)\<rparr>,
                       TriTreeNode_zero, TriTreeNode_zero],
               nextTriNodeIdx = 4\<rparr>])\<rparr>"
section \<open>Properties\<close>

subsection \<open>Properties of the pool\<close>

lemma Reset_length: "length (pool (Reset p)) = length (pool p)"
  by (simp add: Reset_def)

lemma Reset_cursor: "nextTriNodeIdx (Reset p) = 0"
  by (simp add: Reset_def)

lemma Reset_cleared:
  "i < nextTriNodeIdx p \<Longrightarrow> i < length (pool p) \<Longrightarrow> pool (Reset p) ! i = TriTreeNode_zero"
  by (simp add: Reset_def)

lemma Reset_kept:
  "nextTriNodeIdx p \<le> i \<Longrightarrow> i < length (pool p) \<Longrightarrow> pool (Reset p) ! i = pool p ! i"
  by (simp add: Reset_def)

text \<open>
  Claim C5. \<^verbatim>\<open>Allocate\<close> on an exhausted pool returns false, sets both outputs to null and
  leaves the pool (cursor included) as it was; otherwise it returns true, the outputs are
  the two distinct nodes at the cursor and the one after it, and the cursor has advanced
  by exactly two. With the constructor's invariant (even capacity) and an even cursor,
  both nodes lie inside the pool.
\<close>

theorem Allocate_contract:
  "(OutOfNodes p \<longrightarrow> Allocate p = (False, None, None, p)) \<and>
   (\<not> OutOfNodes p \<longrightarrow>
      (\<exists>l r p'. Allocate p = (True, Some l, Some r, p') \<and>
         l = PoolNode (nextTriNodeIdx p) \<and> r = PoolNode (nextTriNodeIdx p + 1) \<and> l \<noteq> r \<and>
         nextTriNodeIdx p' = nextTriNodeIdx p + 2 \<and> pool p' = pool p \<and>
         (even (length (pool p)) \<and> even (nextTriNodeIdx p) \<longrightarrow>
            nextTriNodeIdx p + 1 < length (pool p) \<and> nextTriNodeIdx p' \<le> length (pool p))))"
proof (cases "OutOfNodes p")
  case True
  then show ?thesis by (simp add: Allocate_def)
next
  case False
  then have lt: "nextTriNodeIdx p < length (pool p)"
    by (simp add: OutOfNodes_def)
  have "even (length (pool p)) \<Longrightarrow> even (nextTriNodeIdx p) \<Longrightarrow>
        nextTriNodeIdx p + 2 \<le> length (pool p)"
  proof -
    assume e: "even (length (pool p))" "even (nextTriNodeIdx p)"
    then obtain a b where ab: "length (pool p) = 2 * a" "nextTriNodeIdx p = 2 * b"
      by (auto elim!: evenE)
    with lt show ?thesis by simp
  qed
  with False show ?thesis
    by (auto simp: Allocate_def)
qed

theorem Allocate_contract_witness:
  "OutOfNodes (CTriNodePool_ctor 2\<lparr>nextTriNodeIdx := 2\<rparr>) \<and>
   Allocate (CTriNodePool_ctor 2\<lparr>nextTriNodeIdx := 2\<rparr>)
     = (False, None, None, CTriNodePool_ctor 2\<lparr>nextTriNodeIdx := 2\<rparr>) \<and>
   \<not> OutOfNodes (CTriNodePool_ctor 4) \<and>
   fst (Allocate (CTriNodePool_ctor 4)) = True \<and>
   fst (snd (Allocate (CTriNodePool_ctor 4))) = Some (PoolNode 0) \<and>
   fst (snd (snd (Allocate (CTriNodePool_ctor 4)))) = Some (PoolNode 1) \<and>
   nextTriNodeIdx (snd (snd (snd (Allocate (CTriNodePool_ctor 4))))) = 2"
  using Allocate_contract [of "CTriNodePool_ctor 2\<lparr>nextTriNodeIdx := 2\<rparr>"]
        Allocate_contract [of "CTriNodePool_ctor 4"]
  by (auto simp: OutOfNodes_def CTriNodePool_ctor_def)

text \<open>
  Claim C6. For a pool whose cursor is positive (and, as the pool's invariant has it, not
  beyond the capacity): \<^verbatim>\<open>Reset\<close> followed by \<^verbatim>\<open>Allocate\<close> succeeds and returns the nodes
  0 and 1 at the start of the pool, and every node issued before the \<^verbatim>\<open>Reset\<close> (every
  index below the old cursor) is the zero node, with no child or neighbour reference
  left, after the \<^verbatim>\<open>Reset\<close> and still after the \<^verbatim>\<open>Allocate\<close>.
\<close>

theorem Reset_then_Allocate:
  assumes "0 < nextTriNodeIdx p" and "nextTriNodeIdx p \<le> length (pool p)"
  shows "\<exists>p'. Allocate (Reset p) = (True, Some (PoolNode 0), Some (PoolNode 1), p') \<and>
           nextTriNodeIdx p' = 2 \<and>
           (\<forall>i < nextTriNodeIdx p.
              pool (Reset p) ! i = TriTreeNode_zero \<and> pool p' ! i = TriTreeNode_zero \<and>
              LeftChild (pool p' ! i) = None \<and> RightChild (pool p' ! i) = None \<and>
              BaseNeighbor (pool p' ! i) = None \<and> LeftNeighbor (pool p' ! i) = None \<and>
              RightNeighbor (pool p' ! i) = None)"
proof -
  from assms have "0 < length (pool p)"
    by linarith
  then have "\<not> OutOfNodes (Reset p)"
    by (simp add: OutOfNodes_def Reset_length Reset_cursor)
  then have a: "Allocate (Reset p) =
      (True, Some (PoolNode 0), Some (PoolNode 1), (Reset p)\<lparr>nextTriNodeIdx := 2\<rparr>)"
    by (simp add: Allocate_def Reset_cursor)
  have "pool (Reset p) ! i = TriTreeNode_zero" if "i < nextTriNodeIdx p" for i
    using that assms(2) by (simp add: Reset_cleared)
  with a show ?thesis
    by (simp add: TriTreeNode_zero_def)
qed

theorem Reset_then_Allocate_witness:
  "fst (Allocate (Reset \<lparr>pool = [\<lparr>LeftChild = Some (PoolNode 1), RightChild = None,
                                  BaseNeighbor = Some BaseLeftRef, LeftNeighbor = None,
                                  RightNeighbor = None\<rparr>, TriTreeNode_zero],
                          nextTriNodeIdx = 2\<rparr>)) = True \<and>
   pool (Reset \<lparr>pool = [\<lparr>LeftChild = Some (PoolNode 1), RightChild = None,
                         BaseNeighbor = Some BaseLeftRef, LeftNeighbor = None,
                         RightNeighbor = None\<rparr>, TriTreeNode_zero],
                 nextTriNodeIdx = 2\<rparr>) ! 0 = TriTreeNode_zero"
  using Reset_then_Allocate [of "\<lparr>pool = [\<lparr>LeftChild = Some (PoolNode 1), RightChild = None,
                                  BaseNeighbor = Some BaseLeftRef, LeftNeighbor = None,
                                  RightNeighbor = None\<rparr>, TriTreeNode_zero],
                          nextTriNodeIdx = 2\<rparr>"]
  by auto


subsection \<open>Properties of the variance computation\<close>

text \<open>
  Every position of the tile grid is read inside \<open>vertices\<close>, whose length is
  \<open>3 * (PATCH_SIZE + 1) * (PATCH_SIZE + 1)\<close>, and a midpoint of two grid positions is a
  grid position.
\<close>

lemma GetHeight_index_in_range:
  assumes "0 \<le> px" "px \<le> PS" "0 \<le> py" "py \<le> PS"
  shows "0 \<le> (py * (PS + 1) + px) * 3 + 1"
    and "nat ((py * (PS + 1) + px) * 3 + 1) < nat (3 * (PS + 1) * (PS + 1))"
proof -
  have a: "0 \<le> py * (PS + 1)" using assms by simp
  then show nonneg: "0 \<le> (py * (PS + 1) + px) * 3 + 1" using assms by simp
  have "py * (PS + 1) \<le> PS * (PS + 1)" using assms by (simp add: mult_right_mono)
  then have less: "py * (PS + 1) + px < (PS + 1) * (PS + 1)"
    using assms by (simp add: algebra_simps)
  have "i < j \<Longrightarrow> i * 3 + 1 < 3 * j" for i j :: int by simp
  from this[OF less] have "(py * (PS + 1) + px) * 3 + 1 < 3 * ((PS + 1) * (PS + 1))" .
  also have "3 * ((PS + 1) * (PS + 1)) = 3 * (PS + 1) * (PS + 1)"
    by (simp only: mult.assoc)
  finally have "(py * (PS + 1) + px) * 3 + 1 < 3 * (PS + 1) * (PS + 1)" .
  then show "nat ((py * (PS + 1) + px) * 3 + 1) < nat (3 * (PS + 1) * (PS + 1))"
    using nonneg by linarith
qed

lemma midpoint_in_tile:
  "0 \<le> l \<Longrightarrow> l \<le> PS \<Longrightarrow> 0 \<le> r \<Longrightarrow> r \<le> PS \<Longrightarrow>
   0 \<le> (l + r) div 2 \<and> (l + r) div 2 \<le> (PS :: int)"
  by simp

lemma RCV_leaf:
  assumes "\<not> (4 \<le> \<bar>lx - rx\<bar> \<or> 4 \<le> \<bar>ly - ry\<bar>)"
  shows "RecursComputeVariance PS VD vs cv (lx, ly) (rx, ry) (ax, ay) (hx, hy, hz) node =
    (let v = max 0.001 (own_variance hx hy (GetHeight PS vs ((lx + rx) div 2, (ly + ry) div 2)))
     in (v, store_variance VD cv node v))"
  apply (subst RecursComputeVariance.simps)
  apply (simp only: Let_def own_variance_def store_variance_def assms if_False prod.case)
  done

lemma RCV_inner:
  assumes "4 \<le> \<bar>lx - rx\<bar> \<or> 4 \<le> \<bar>ly - ry\<bar>"
  shows "RecursComputeVariance PS VD vs cv (lx, ly) (rx, ry) (ax, ay) (hx, hy, hz) node =
    (let mpos = ((lx + rx) div 2, (ly + ry) div 2);
         mhgt = GetHeight PS vs mpos;
         r1 = RecursComputeVariance PS VD vs cv (ax, ay) (lx, ly) mpos (hz, hx, mhgt) (2 * node);
         r2 = RecursComputeVariance PS VD vs (snd r1) (rx, ry) (ax, ay) mpos (hy, hz, mhgt) (2 * node + 1);
         v = max 0.001 (max (max (own_variance hx hy mhgt) (fst r1)) (fst r2))
     in (v, store_variance VD (snd r2) node v))"
  apply (subst RecursComputeVariance.simps)
  apply (simp only: Let_def own_variance_def store_variance_def assms if_True split_beta prod.case fst_conv snd_conv)
  done

lemma variance_nodes_leaf:
  "\<not> (4 \<le> \<bar>lx - rx\<bar> \<or> 4 \<le> \<bar>ly - ry\<bar>) \<Longrightarrow> variance_nodes (lx, ly) (rx, ry) (ax, ay) node = [node]"
  by (subst variance_nodes.simps) (simp only: if_False)

lemma variance_nodes_inner:
  "4 \<le> \<bar>lx - rx\<bar> \<or> 4 \<le> \<bar>ly - ry\<bar> \<Longrightarrow>
   variance_nodes (lx, ly) (rx, ry) (ax, ay) node =
     node # variance_nodes (ax, ay) (lx, ly) ((lx + rx) div 2, (ly + ry) div 2) (2 * node) @
            variance_nodes (rx, ry) (ax, ay) ((lx + rx) div 2, (ly + ry) div 2) (2 * node + 1)"
  by (subst variance_nodes.simps) (simp only: if_True)

lemma RCV_induct [case_names leaf inner]:
  assumes leaf: "\<And>PS VD vs cv lx ly rx ry ax ay hx hy hz node.
      \<not> (4 \<le> \<bar>lx - rx\<bar> \<or> 4 \<le> \<bar>ly - ry\<bar>) \<Longrightarrow>
      P PS VD vs cv (lx, ly) (rx, ry) (ax, ay) (hx, hy, hz) node"
  and inner: "\<And>PS VD vs cv lx ly rx ry ax ay hx hy hz node.
      4 \<le> \<bar>lx - rx\<bar> \<or> 4 \<le> \<bar>ly - ry\<bar> \<Longrightarrow>
      P PS VD vs cv (ax, ay) (lx, ly) ((lx + rx) div 2, (ly + ry) div 2)
        (hz, hx, GetHeight PS vs ((lx + rx) div 2, (ly + ry) div 2)) (2 * node) \<Longrightarrow>
      P PS VD vs
        (snd (RecursComputeVariance PS VD vs cv (ax, ay) (lx, ly) ((lx + rx) div 2, (ly + ry) div 2)
           (hz, hx, GetHeight PS vs ((lx + rx) div 2, (ly + ry) div 2)) (2 * node)))
        (rx, ry) (ax, ay) ((lx + rx) div 2, (ly + ry) div 2)
        (hy, hz, GetHeight PS vs ((lx + rx) div 2, (ly + ry) div 2)) (2 * node + 1) \<Longrightarrow>
      P PS VD vs cv (lx, ly) (rx, ry) (ax, ay) (hx, hy, hz) node"
  shows "P PS VD vs cv left rght apex hgts node"
proof (induction PS VD vs cv left rght apex hgts node rule: RecursComputeVariance.induct)
  case (1 PS VD vs cv lx ly rx ry ax ay hx hy hz node)
  show ?case
  proof (cases "4 \<le> \<bar>lx - rx\<bar> \<or> 4 \<le> \<bar>ly - ry\<bar>")
    case True
    show ?thesis
      by (rule inner[OF True "1.IH"(1)[OF refl refl refl refl True]
                     "1.IH"(2)[OF refl refl refl refl True refl prod.collapse]])
  next
    case False
    then show ?thesis by (rule leaf)
  qed
qed

lemma in_subtree_refl: "in_subtree n n"
  unfolding in_subtree_def by (rule exI[of _ 0]) simp

lemma in_subtree_le: "in_subtree n m \<Longrightarrow> n \<le> m"
  unfolding in_subtree_def by (auto simp: div_le_dividend)

lemma in_subtree_up_even: "in_subtree (2 * n) m \<Longrightarrow> in_subtree n m"
  unfolding in_subtree_def
proof (elim exE)
  fix k assume a: "m div 2 ^ k = 2 * n"
  have "m div 2 ^ Suc k = m div (2 ^ k * 2)" by (simp add: mult.commute)
  also have "\<dots> = m div 2 ^ k div 2" by (rule div_mult2_eq)
  also have "\<dots> = n" using a by simp
  finally show "\<exists>k. m div 2 ^ k = n" by blast
qed

lemma in_subtree_up_odd: "in_subtree (2 * n + 1) m \<Longrightarrow> in_subtree n m"
  unfolding in_subtree_def
proof (elim exE)
  fix k assume a: "m div 2 ^ k = 2 * n + 1"
  have "m div 2 ^ Suc k = m div (2 ^ k * 2)" by (simp add: mult.commute)
  also have "\<dots> = m div 2 ^ k div 2" by (rule div_mult2_eq)
  also have "\<dots> = n" using a by simp
  finally show "\<exists>k. m div 2 ^ k = n" by blast
qed

lemma in_subtree_down: "in_subtree n m \<Longrightarrow> in_subtree n (2 * m) \<and> in_subtree n (2 * m + 1)"
  unfolding in_subtree_def
proof (elim exE)
  fix k assume a: "m div 2 ^ k = n"
  have "(2 * m) div 2 ^ Suc k = n" "(2 * m + 1) div 2 ^ Suc k = n"
    using a by (simp_all add: div_mult2_eq)
  then show "(\<exists>k. 2 * m div 2 ^ k = n) \<and> (\<exists>k. (2 * m + 1) div 2 ^ k = n)" by blast
qed

lemma div_pow2_chain: "k \<le> j \<Longrightarrow> (m::nat) div 2 ^ j = (m div 2 ^ k) div 2 ^ (j - k)"
  by (metis div_mult2_eq le_add_diff_inverse power_add)

lemma in_subtree_siblings:
  assumes "0 < n" "in_subtree (2 * n) m" "in_subtree (2 * n + 1) m"
  shows False
proof -
  from assms obtain k j where k: "m div 2 ^ k = 2 * n" and j: "m div 2 ^ j = 2 * n + 1"
    unfolding in_subtree_def by blast
  have "k \<noteq> j" using k j by auto
  then consider "k < j" | "j < k" by linarith
  then show False
  proof cases
    case 1
    then obtain d where d: "j - k = Suc d" by (metis Suc_diff_Suc)
    have "m div 2 ^ j = (2 * n) div 2 ^ (j - k)" using div_pow2_chain[of k j m] 1 k by simp
    also have "\<dots> = n div 2 ^ d" using d by (simp add: div_mult2_eq)
    also have "\<dots> \<le> n" by (rule div_le_dividend)
    finally show False using j by simp
  next
    case 2
    then obtain d where d: "k - j = Suc d" by (metis Suc_diff_Suc)
    have "m div 2 ^ k = (2 * n + 1) div 2 ^ (k - j)" using div_pow2_chain[of j k m] 2 j by simp
    also have "\<dots> = n div 2 ^ d" using d by (simp add: div_mult2_eq)
    also have "\<dots> \<le> n" by (rule div_le_dividend)
    finally show False using k assms(1) by simp
  qed
qed



lemma variance_nodes_induct [case_names leaf inner]:
  assumes leaf: "\<And>lx ly rx ry ax ay node.
      \<not> (4 \<le> \<bar>lx - rx\<bar> \<or> 4 \<le> \<bar>ly - ry\<bar>) \<Longrightarrow> P (lx, ly) (rx, ry) (ax, ay) node"
  and inner: "\<And>lx ly rx ry ax ay node.
      4 \<le> \<bar>lx - rx\<bar> \<or> 4 \<le> \<bar>ly - ry\<bar> \<Longrightarrow>
      P (ax, ay) (lx, ly) ((lx + rx) div 2, (ly + ry) div 2) (2 * node) \<Longrightarrow>
      P (rx, ry) (ax, ay) ((lx + rx) div 2, (ly + ry) div 2) (2 * node + 1) \<Longrightarrow>
      P (lx, ly) (rx, ry) (ax, ay) node"
  shows "P (left :: int2) (rght :: int2) (apex :: int2) (node :: nat)"
proof (induction left rght apex node rule: variance_nodes.induct)
  case (1 lx ly rx ry ax ay node)
  show ?case
  proof (cases "4 \<le> \<bar>lx - rx\<bar> \<or> 4 \<le> \<bar>ly - ry\<bar>")
    case True
    show ?thesis by (rule inner[OF True "1.IH"(1)[OF True] "1.IH"(2)[OF True]])
  next
    case False
    then show ?thesis by (rule leaf)
  qed
qed

lemma variance_nodes_subtree:
  "m \<in> set (variance_nodes left rght apex node) \<Longrightarrow> in_subtree node m"
proof (induction left rght apex node rule: variance_nodes_induct)
  case (leaf lx ly rx ry ax ay node)
  then show ?case by (simp add: variance_nodes_leaf in_subtree_refl)
next
  case (inner lx ly rx ry ax ay node)
  from inner.prems inner.hyps have
    "m = node \<or>
     m \<in> set (variance_nodes (ax, ay) (lx, ly) ((lx + rx) div 2, (ly + ry) div 2) (2 * node)) \<or>
     m \<in> set (variance_nodes (rx, ry) (ax, ay) ((lx + rx) div 2, (ly + ry) div 2) (2 * node + 1))"
    by (simp add: variance_nodes_inner)
  then show ?case
    using inner.IH in_subtree_refl in_subtree_up_even in_subtree_up_odd by blast
qed

lemma variance_nodes_root: "node \<in> set (variance_nodes left rght apex node)"
  by (induction left rght apex node rule: variance_nodes_induct)
     (simp_all add: variance_nodes_leaf variance_nodes_inner)

lemma child_node_neq:
  assumes "0 < node"
  shows "m \<in> set (variance_nodes l r a (2 * node)) \<Longrightarrow> m \<noteq> node"
    and "m \<in> set (variance_nodes l r a (2 * node + 1)) \<Longrightarrow> m \<noteq> node"
  using assms in_subtree_le variance_nodes_subtree by fastforce+

lemma child_nodes_disjoint:
  assumes "0 < node"
    and "m \<in> set (variance_nodes l r a (2 * node))"
    and "m \<in> set (variance_nodes l' r' a' (2 * node + 1))"
  shows False
  using assms in_subtree_siblings variance_nodes_subtree by blast


lemma RCV_leaf_fst:
  assumes "\<not> (4 \<le> \<bar>lx - rx\<bar> \<or> 4 \<le> \<bar>ly - ry\<bar>)"
  shows "fst (RecursComputeVariance PS VD vs cv (lx, ly) (rx, ry) (ax, ay) (hx, hy, hz) node) =
         max 0.001 (own_variance hx hy (GetHeight PS vs ((lx + rx) div 2, (ly + ry) div 2)))"
  by (simp only: RCV_leaf[OF assms] Let_def fst_conv)

lemma RCV_leaf_snd:
  assumes "\<not> (4 \<le> \<bar>lx - rx\<bar> \<or> 4 \<le> \<bar>ly - ry\<bar>)"
  shows "snd (RecursComputeVariance PS VD vs cv (lx, ly) (rx, ry) (ax, ay) (hx, hy, hz) node) =
         store_variance VD cv node
           (fst (RecursComputeVariance PS VD vs cv (lx, ly) (rx, ry) (ax, ay) (hx, hy, hz) node))"
  by (simp only: RCV_leaf[OF assms] Let_def fst_conv snd_conv)

lemma RCV_inner_fst:
  assumes "4 \<le> \<bar>lx - rx\<bar> \<or> 4 \<le> \<bar>ly - ry\<bar>"
  shows "fst (RecursComputeVariance PS VD vs cv (lx, ly) (rx, ry) (ax, ay) (hx, hy, hz) node) =
         max 0.001 (max (max (own_variance hx hy (GetHeight PS vs ((lx + rx) div 2, (ly + ry) div 2)))
           (fst (RecursComputeVariance PS VD vs cv (ax, ay) (lx, ly) ((lx + rx) div 2, (ly + ry) div 2)
              (hz, hx, GetHeight PS vs ((lx + rx) div 2, (ly + ry) div 2)) (2 * node))))
           (fst (RecursComputeVariance PS VD vs
              (snd (RecursComputeVariance PS VD vs cv (ax, ay) (lx, ly) ((lx + rx) div 2, (ly + ry) div 2)
                 (hz, hx, GetHeight PS vs ((lx + rx) div 2, (ly + ry) div 2)) (2 * node)))
              (rx, ry) (ax, ay) ((lx + rx) div 2, (ly + ry) div 2)
              (hy, hz, GetHeight PS vs ((lx + rx) div 2, (ly + ry) div 2)) (2 * node + 1))))"
  by (simp only: RCV_inner[OF assms] Let_def fst_conv snd_conv)

lemma RCV_inner_snd:
  assumes "4 \<le> \<bar>lx - rx\<bar> \<or> 4 \<le> \<bar>ly - ry\<bar>"
  shows "snd (RecursComputeVariance PS VD vs cv (lx, ly) (rx, ry) (ax, ay) (hx, hy, hz) node) =
         store_variance VD
           (snd (RecursComputeVariance PS VD vs
              (snd (RecursComputeVariance PS VD vs cv (ax, ay) (lx, ly) ((lx + rx) div 2, (ly + ry) div 2)
                 (hz, hx, GetHeight PS vs ((lx + rx) div 2, (ly + ry) div 2)) (2 * node)))
              (rx, ry) (ax, ay) ((lx + rx) div 2, (ly + ry) div 2)
              (hy, hz, GetHeight PS vs ((lx + rx) div 2, (ly + ry) div 2)) (2 * node + 1)))
           node
           (fst (RecursComputeVariance PS VD vs cv (lx, ly) (rx, ry) (ax, ay) (hx, hy, hz) node))"
  by (simp only: RCV_inner[OF assms] Let_def fst_conv snd_conv)

lemma store_variance_length: "length (store_variance VD cv n v) = length cv"
  by (simp add: store_variance_def)

lemma store_variance_other: "m \<noteq> n \<Longrightarrow> store_variance VD cv n v ! m = cv ! m"
  by (simp add: store_variance_def)

lemma store_variance_same:
  "n < 2 ^ VD \<Longrightarrow> n < length cv \<Longrightarrow> store_variance VD cv n v ! n = v"
  by (simp add: store_variance_def)

lemma RCV_length:
  "length (snd (RecursComputeVariance PS VD vs cv left rght apex hgts node)) = length cv"
proof (induction PS VD vs cv left rght apex hgts node rule: RCV_induct)
  case (leaf PS VD vs cv lx ly rx ry ax ay hx hy hz node)
  show ?case by (simp only: RCV_leaf_snd[OF leaf] store_variance_length)
next
  case (inner PS VD vs cv lx ly rx ry ax ay hx hy hz node)
  show ?case by (simp only: RCV_inner_snd[OF inner.hyps] store_variance_length inner.IH)
qed

lemma RCV_frame:
  "m \<notin> set (variance_nodes left rght apex node) \<Longrightarrow>
   snd (RecursComputeVariance PS VD vs cv left rght apex hgts node) ! m = cv ! m"
proof (induction PS VD vs cv left rght apex hgts node rule: RCV_induct)
  case (leaf PS VD vs cv lx ly rx ry ax ay hx hy hz node)
  from leaf.prems have m: "m \<noteq> node"
    by (simp add: variance_nodes_leaf[OF leaf.hyps])
  show ?case
    by (simp only: RCV_leaf_snd[OF leaf.hyps] store_variance_other[OF m])
next
  case (inner PS VD vs cv lx ly rx ry ax ay hx hy hz node)
  from inner.prems have m: "m \<noteq> node"
    "m \<notin> set (variance_nodes (ax, ay) (lx, ly) ((lx + rx) div 2, (ly + ry) div 2) (2 * node))"
    "m \<notin> set (variance_nodes (rx, ry) (ax, ay) ((lx + rx) div 2, (ly + ry) div 2) (2 * node + 1))"
    by (simp_all add: variance_nodes_inner[OF inner.hyps])
  show ?case
    by (simp only: RCV_inner_snd[OF inner.hyps] store_variance_other[OF m(1)]
          inner.IH(1)[OF m(2)] inner.IH(2)[OF m(3)])
qed

lemma RCV_result_ge:
  "0.001 \<le> fst (RecursComputeVariance PS VD vs cv left rght apex hgts node)"
proof (induction PS VD vs cv left rght apex hgts node rule: RCV_induct)
  case (leaf PS VD vs cv lx ly rx ry ax ay hx hy hz node)
  show ?case by (simp only: RCV_leaf_fst[OF leaf] max.cobounded1)
next
  case (inner PS VD vs cv lx ly rx ry ax ay hx hy hz node)
  show ?case by (simp only: RCV_inner_fst[OF inner.hyps] max.cobounded1)
qed

lemma RCV_stored:
  "node < 2 ^ VD \<Longrightarrow> node < length cv \<Longrightarrow>
   snd (RecursComputeVariance PS VD vs cv left rght apex hgts node) ! node
     = fst (RecursComputeVariance PS VD vs cv left rght apex hgts node)"
proof (induction PS VD vs cv left rght apex hgts node rule: RCV_induct)
  case (leaf PS VD vs cv lx ly rx ry ax ay hx hy hz node)
  show ?case
    by (simp only: RCV_leaf_snd[OF leaf.hyps] store_variance_same[OF leaf.prems])
next
  case (inner PS VD vs cv lx ly rx ry ax ay hx hy hz node)
  have "node < length (snd (RecursComputeVariance PS VD vs
              (snd (RecursComputeVariance PS VD vs cv (ax, ay) (lx, ly) ((lx + rx) div 2, (ly + ry) div 2)
                 (hz, hx, GetHeight PS vs ((lx + rx) div 2, (ly + ry) div 2)) (2 * node)))
              (rx, ry) (ax, ay) ((lx + rx) div 2, (ly + ry) div 2)
              (hy, hz, GetHeight PS vs ((lx + rx) div 2, (ly + ry) div 2)) (2 * node + 1)))"
    using inner.prems(2) by (simp only: RCV_length)
  then show ?case
    by (simp only: RCV_inner_snd[OF inner.hyps] store_variance_same[OF inner.prems(1)])
qed

lemma RCV_nodes_positive:
  "0 < node \<Longrightarrow> m \<in> set (variance_nodes left rght apex node) \<Longrightarrow>
   m < 2 ^ VD \<Longrightarrow> m < length cv \<Longrightarrow>
   0.001 \<le> snd (RecursComputeVariance PS VD vs cv left rght apex hgts node) ! m"
proof (induction PS VD vs cv left rght apex hgts node rule: RCV_induct)
  case (leaf PS VD vs cv lx ly rx ry ax ay hx hy hz node)
  from leaf.prems(2) have "m = node"
    by (simp add: variance_nodes_leaf[OF leaf.hyps])
  with leaf.prems show ?case
    by (simp only: RCV_stored RCV_result_ge)
next
  case (inner PS VD vs cv lx ly rx ry ax ay hx hy hz node)
  let ?mp = "((lx + rx) div 2, (ly + ry) div 2)"
  let ?r1 = "RecursComputeVariance PS VD vs cv (ax, ay) (lx, ly) ?mp (hz, hx, GetHeight PS vs ?mp) (2 * node)"
  let ?r2 = "RecursComputeVariance PS VD vs (snd ?r1) (rx, ry) (ax, ay) ?mp (hy, hz, GetHeight PS vs ?mp) (2 * node + 1)"
  let ?n1 = "variance_nodes (ax, ay) (lx, ly) ?mp (2 * node)"
  let ?n2 = "variance_nodes (rx, ry) (ax, ay) ?mp (2 * node + 1)"
  from inner.prems(2) consider "m = node" | "m \<noteq> node" "m \<in> set ?n2"
    | "m \<noteq> node" "m \<notin> set ?n2" "m \<in> set ?n1"
    by (auto simp: variance_nodes_inner[OF inner.hyps])
  then show ?case
  proof cases
    case 1
    with inner.prems show ?thesis by (simp only: RCV_stored RCV_result_ge)
  next
    case 2
    have "0.001 \<le> snd ?r2 ! m"
      using inner.IH(2) inner.prems(1,3,4) 2(2) by (simp add: RCV_length)
    then show ?thesis
      by (simp only: RCV_inner_snd[OF inner.hyps] store_variance_other[OF 2(1)])
  next
    case 3
    have "0.001 \<le> snd ?r1 ! m"
      using inner.IH(1) inner.prems(1,3,4) 3(3) by simp
    then have "0.001 \<le> snd ?r2 ! m"
      by (simp only: RCV_frame[OF 3(2)])
    then show ?thesis
      by (simp only: RCV_inner_snd[OF inner.hyps] store_variance_other[OF 3(1)])
  qed
qed

lemma RCV_monotone:
  "0 < node \<Longrightarrow> m \<in> set (variance_nodes left rght apex node) \<Longrightarrow>
   2 * m \<in> set (variance_nodes left rght apex node) \<Longrightarrow>
   2 * m + 1 \<in> set (variance_nodes left rght apex node) \<Longrightarrow>
   2 * m + 1 < 2 ^ VD \<Longrightarrow> 2 * m + 1 < length cv \<Longrightarrow>
   snd (RecursComputeVariance PS VD vs cv left rght apex hgts node) ! (2 * m)
     \<le> snd (RecursComputeVariance PS VD vs cv left rght apex hgts node) ! m \<and>
   snd (RecursComputeVariance PS VD vs cv left rght apex hgts node) ! (2 * m + 1)
     \<le> snd (RecursComputeVariance PS VD vs cv left rght apex hgts node) ! m"
proof (induction PS VD vs cv left rght apex hgts node rule: RCV_induct)
  case (leaf PS VD vs cv lx ly rx ry ax ay hx hy hz node)
  from leaf.prems(2,3) have "m = node" "2 * m = node"
    by (simp_all add: variance_nodes_leaf[OF leaf.hyps])
  with leaf.prems(1) have False by simp
  then show ?case ..
next
  case (inner PS VD vs cv lx ly rx ry ax ay hx hy hz node)
  let ?mp = "((lx + rx) div 2, (ly + ry) div 2)"
  let ?r1 = "RecursComputeVariance PS VD vs cv (ax, ay) (lx, ly) ?mp (hz, hx, GetHeight PS vs ?mp) (2 * node)"
  let ?r2 = "RecursComputeVariance PS VD vs (snd ?r1) (rx, ry) (ax, ay) ?mp (hy, hz, GetHeight PS vs ?mp) (2 * node + 1)"
  let ?r = "RecursComputeVariance PS VD vs cv (lx, ly) (rx, ry) (ax, ay) (hx, hy, hz) node"
  define N1 where "N1 = set (variance_nodes (ax, ay) (lx, ly) ?mp (2 * node))"
  define N2 where "N2 = set (variance_nodes (rx, ry) (ax, ay) ?mp (2 * node + 1))"
  define A1 where "A1 = snd ?r1"
  define A2 where "A2 = snd ?r2"
  define A where "A = snd ?r"
  define v1 where "v1 = fst ?r1"
  define v2 where "v2 = fst ?r2"
  define v where "v = fst ?r"
  note pos = inner.prems(1)
  have nodes: "set (variance_nodes (lx, ly) (rx, ry) (ax, ay) node) = insert node (N1 \<union> N2)"
    unfolding N1_def N2_def by (simp add: variance_nodes_inner[OF inner.hyps])
  have sub1: "in_subtree (2 * node) k" if "k \<in> N1" for k
    using that unfolding N1_def by (rule variance_nodes_subtree)
  have sub2: "in_subtree (2 * node + 1) k" if "k \<in> N2" for k
    using that unfolding N2_def by (rule variance_nodes_subtree)
  have ne1: "k \<noteq> node" if "in_subtree (2 * node) k" for k
    using pos in_subtree_le[OF that] by simp
  have ne2: "k \<noteq> node" if "in_subtree (2 * node + 1) k" for k
    using pos in_subtree_le[OF that] by simp
  have other: "A ! k = A2 ! k" if "k \<noteq> node" for k
    unfolding A_def A2_def
    by (simp only: RCV_inner_snd[OF inner.hyps] store_variance_other[OF that])
  have frame2: "A2 ! k = A1 ! k" if "k \<notin> N2" for k
    using that unfolding A2_def A1_def N2_def by (rule RCV_frame)
  have len1: "length A1 = length cv"
    unfolding A1_def by (rule RCV_length)
  have mem: "m = node \<or> m \<in> N1 \<or> m \<in> N2"
    "2 * m = node \<or> 2 * m \<in> N1 \<or> 2 * m \<in> N2"
    "2 * m + 1 = node \<or> 2 * m + 1 \<in> N1 \<or> 2 * m + 1 \<in> N2"
    using inner.prems(2,3,4) unfolding nodes by blast+
  from mem(1) consider "m = node" | "m \<in> N1" | "m \<in> N2"
    by blast
  then have "A ! (2 * m) \<le> A ! m \<and> A ! (2 * m + 1) \<le> A ! m"
  proof cases
    case 1
    have lt: "node < 2 ^ VD" "node < length cv" "2 * node < 2 ^ VD" "2 * node < length cv"
      "2 * node + 1 < 2 ^ VD" "2 * node + 1 < length A1"
      using inner.prems(5,6) 1 len1 by simp_all
    have top: "A ! node = v"
      unfolding A_def v_def by (rule RCV_stored[OF lt(1,2)])
    have "2 * node \<notin> N2"
    proof
      assume "2 * node \<in> N2"
      then have "2 * node + 1 \<le> 2 * node" by (intro in_subtree_le sub2)
      then show False by simp
    qed
    then have "A2 ! (2 * node) = A1 ! (2 * node)"
      by (rule frame2)
    moreover have "A1 ! (2 * node) = v1"
      unfolding A1_def v1_def by (rule RCV_stored[OF lt(3,4)])
    moreover have "A ! (2 * node) = A2 ! (2 * node)"
      using pos by (intro other) simp
    ultimately have c1: "A ! (2 * node) = v1" by simp
    have "A2 ! (2 * node + 1) = v2"
      unfolding A2_def v2_def using lt(5,6) unfolding A1_def by (rule RCV_stored)
    moreover have "A ! (2 * node + 1) = A2 ! (2 * node + 1)"
      by (intro other) simp
    ultimately have c2: "A ! (2 * node + 1) = v2" by simp
    have "v1 \<le> v" "v2 \<le> v"
      unfolding v_def v1_def v2_def
      by (simp_all only: RCV_inner_fst[OF inner.hyps] max.coboundedI2 max.coboundedI1
            max.cobounded1 max.cobounded2)
    then show ?thesis
      unfolding 1 c1 c2 top by simp
  next
    case 2
    then have s: "in_subtree (2 * node) m" by (rule sub1)
    then have sd: "in_subtree (2 * node) (2 * m)" "in_subtree (2 * node) (2 * m + 1)"
      using in_subtree_down by blast+
    have notin2: "k \<notin> N2" if "in_subtree (2 * node) k" for k
      using in_subtree_siblings[OF pos that] sub2 by blast
    have in1: "2 * m \<in> N1" "2 * m + 1 \<in> N1"
      using mem(2,3) ne1[OF sd(1)] ne1[OF sd(2)] notin2[OF sd(1)] notin2[OF sd(2)]
      by blast+
    have pos2: "0 < 2 * node" using pos by simp
    have ih: "A1 ! (2 * m) \<le> A1 ! m \<and> A1 ! (2 * m + 1) \<le> A1 ! m"
      unfolding A1_def
      by (rule inner.IH(1)[OF pos2 2[unfolded N1_def] in1(1)[unfolded N1_def]
            in1(2)[unfolded N1_def] inner.prems(5) inner.prems(6)])
    have "A ! m = A1 ! m" "A ! (2 * m) = A1 ! (2 * m)" "A ! (2 * m + 1) = A1 ! (2 * m + 1)"
      using other[OF ne1[OF s]] other[OF ne1[OF sd(1)]] other[OF ne1[OF sd(2)]]
        frame2[OF notin2[OF s]] frame2[OF notin2[OF sd(1)]] frame2[OF notin2[OF sd(2)]]
      by simp_all
    with ih show ?thesis by simp
  next
    case 3
    then have s: "in_subtree (2 * node + 1) m" by (rule sub2)
    then have sd: "in_subtree (2 * node + 1) (2 * m)" "in_subtree (2 * node + 1) (2 * m + 1)"
      using in_subtree_down by blast+
    have notin1: "k \<notin> N1" if "in_subtree (2 * node + 1) k" for k
      using in_subtree_siblings[OF pos _ that] sub1 by blast
    have in2: "2 * m \<in> N2" "2 * m + 1 \<in> N2"
      using mem(2,3) ne2[OF sd(1)] ne2[OF sd(2)] notin1[OF sd(1)] notin1[OF sd(2)]
      by blast+
    have pos2: "0 < 2 * node + 1" by simp
    have l: "2 * m + 1 < length (snd ?r1)"
      using inner.prems(6) len1 unfolding A1_def by simp
    have ih: "A2 ! (2 * m) \<le> A2 ! m \<and> A2 ! (2 * m + 1) \<le> A2 ! m"
      unfolding A2_def
      by (rule inner.IH(2)[OF pos2 3[unfolded N2_def] in2(1)[unfolded N2_def]
            in2(2)[unfolded N2_def] inner.prems(5) l])
    have "A ! m = A2 ! m" "A ! (2 * m) = A2 ! (2 * m)" "A ! (2 * m + 1) = A2 ! (2 * m + 1)"
      using other[OF ne2[OF s]] other[OF ne2[OF sd(1)]] other[OF ne2[OF sd(2)]]
      by simp_all
    with ih show ?thesis by simp
  qed
  then show ?case unfolding A_def .
qed


lemma zero_not_visited: "0 < node \<Longrightarrow> 0 \<notin> set (variance_nodes left rght apex node)"
  using in_subtree_le variance_nodes_subtree by fastforce

lemma ComputeVariance_left:
  "varianceLeft (ComputeVariance PS VD p) =
     snd (RecursComputeVariance PS VD (vertices p) (varianceLeft p) (0, PS) (PS, 0) (0, 0)
            (GetHeight PS (vertices p) (0, PS), GetHeight PS (vertices p) (PS, 0),
             GetHeight PS (vertices p) (0, 0)) 1)"
  by (simp add: ComputeVariance_def Let_def)

lemma ComputeVariance_right:
  "varianceRight (ComputeVariance PS VD p) =
     snd (RecursComputeVariance PS VD (vertices p) (varianceRight p) (PS, 0) (0, PS) (PS, PS)
            (GetHeight PS (vertices p) (PS, 0), GetHeight PS (vertices p) (0, PS),
             GetHeight PS (vertices p) (PS, PS)) 1)"
  by (simp add: ComputeVariance_def Let_def)

lemma Patch_ctor_variance:
  "varianceLeft (Patch_ctor PS VD) = replicate (2 ^ VD) 0"
  "varianceRight (Patch_ctor PS VD) = replicate (2 ^ VD) 0"
  by (simp_all add: Patch_ctor_def)

lemma root_children_visited:
  "1 \<in> set (variance_nodes (0, 128) (128, 0) (0, 0) 1)"
  "2 \<in> set (variance_nodes (0, 128) (128, 0) (0, 0) 1)"
  "3 \<in> set (variance_nodes (0, 128) (128, 0) (0, 0) 1)"
proof -
  have c: "4 \<le> \<bar>(0::int) - 128\<bar> \<or> 4 \<le> \<bar>(128::int) - 0\<bar>" by simp
  show "1 \<in> set (variance_nodes (0, 128) (128, 0) (0, 0) 1)"
    by (rule variance_nodes_root)
  have "2 * 1 \<in> set (variance_nodes (0, 128) (128, 0) (0, 0) 1)"
    by (subst variance_nodes_inner[OF c]) (simp add: variance_nodes_root)
  then show "2 \<in> set (variance_nodes (0, 128) (128, 0) (0, 0) 1)" by simp
  have "2 * 1 + 1 \<in> set (variance_nodes (0, 128) (128, 0) (0, 0) 1)"
    by (subst variance_nodes_inner[OF c]) (simp add: variance_nodes_root)
  then show "3 \<in> set (variance_nodes (0, 128) (128, 0) (0, 0) 1)" by simp
qed

text \<open>
  Claim C2, as the code has it. After \<^verbatim>\<open>ComputeVariance\<close>, every entry that the recursion
  has written (the entry of every visited node index below \<open>2^VD\<close>) is at least 0.001
  and so strictly positive, whatever the heights are (a flat tile included); every other
  entry keeps the value it had, and entry 0 is among those: the root has index 1 and
  index 0 is never written.
\<close>

theorem ComputeVariance_written_entries_positive:
  assumes "length (varianceLeft p) = 2 ^ VD" and "length (varianceRight p) = 2 ^ VD"
  shows "(\<forall>n \<in> set (variance_nodes (0, PS) (PS, 0) (0, 0) 1). n < 2 ^ VD \<longrightarrow>
            0.001 \<le> varianceLeft (ComputeVariance PS VD p) ! n \<and>
            0 < varianceLeft (ComputeVariance PS VD p) ! n) \<and>
         (\<forall>n \<in> set (variance_nodes (PS, 0) (0, PS) (PS, PS) 1). n < 2 ^ VD \<longrightarrow>
            0.001 \<le> varianceRight (ComputeVariance PS VD p) ! n \<and>
            0 < varianceRight (ComputeVariance PS VD p) ! n) \<and>
         (\<forall>n. n \<notin> set (variance_nodes (0, PS) (PS, 0) (0, 0) 1) \<longrightarrow>
            varianceLeft (ComputeVariance PS VD p) ! n = varianceLeft p ! n) \<and>
         (\<forall>n. n \<notin> set (variance_nodes (PS, 0) (0, PS) (PS, PS) 1) \<longrightarrow>
            varianceRight (ComputeVariance PS VD p) ! n = varianceRight p ! n) \<and>
         varianceLeft (ComputeVariance PS VD p) ! 0 = varianceLeft p ! 0 \<and>
         varianceRight (ComputeVariance PS VD p) ! 0 = varianceRight p ! 0"
proof -
  have pos: "0.001 \<le> x \<Longrightarrow> 0.001 \<le> x \<and> 0 < x" for x :: real
    by simp
  have l: "0.001 \<le> varianceLeft (ComputeVariance PS VD p) ! n \<and>
           0 < varianceLeft (ComputeVariance PS VD p) ! n"
    if "n \<in> set (variance_nodes (0, PS) (PS, 0) (0, 0) 1)" "n < 2 ^ VD" for n
    unfolding ComputeVariance_left
    by (rule pos, rule RCV_nodes_positive[OF _ that(1) that(2)]) (simp_all add: assms that)
  have r: "0.001 \<le> varianceRight (ComputeVariance PS VD p) ! n \<and>
           0 < varianceRight (ComputeVariance PS VD p) ! n"
    if "n \<in> set (variance_nodes (PS, 0) (0, PS) (PS, PS) 1)" "n < 2 ^ VD" for n
    unfolding ComputeVariance_right
    by (rule pos, rule RCV_nodes_positive[OF _ that(1) that(2)]) (simp_all add: assms that)
  have fl: "varianceLeft (ComputeVariance PS VD p) ! n = varianceLeft p ! n"
    if "n \<notin> set (variance_nodes (0, PS) (PS, 0) (0, 0) 1)" for n
    unfolding ComputeVariance_left by (rule RCV_frame[OF that])
  have fr: "varianceRight (ComputeVariance PS VD p) ! n = varianceRight p ! n"
    if "n \<notin> set (variance_nodes (PS, 0) (0, PS) (PS, PS) 1)" for n
    unfolding ComputeVariance_right by (rule RCV_frame[OF that])
  have z: "0 \<notin> set (variance_nodes (0, PS) (PS, 0) (0, 0) 1)"
    "0 \<notin> set (variance_nodes (PS, 0) (0, PS) (PS, PS) 1)"
    by (rule zero_not_visited, simp)+
  from l r fl fr fl[OF z(1)] fr[OF z(2)] show ?thesis
    by blast
qed

theorem ComputeVariance_written_entries_positive_witness:
  "1 \<in> set (variance_nodes (0, 128) (128, 0) (0, 0) 1) \<and> (1::nat) < 2 ^ 12 \<and>
   0 < varianceLeft (ComputeVariance 128 12 (Patch_ctor 128 12)) ! 1"
proof -
  have le: "(1::nat) < 2 ^ 12" by simp
  from ComputeVariance_written_entries_positive
         [of "Patch_ctor 128 12" 12 128, OF Patch_ctor_variance(1)[THEN arg_cong[of _ _ length], simplified]
            Patch_ctor_variance(2)[THEN arg_cong[of _ _ length], simplified]]
  have "\<forall>n \<in> set (variance_nodes (0, 128) (128, 0) (0, 0) 1). n < 2 ^ 12 \<longrightarrow>
            0.001 \<le> varianceLeft (ComputeVariance 128 12 (Patch_ctor 128 12)) ! n \<and>
            0 < varianceLeft (ComputeVariance 128 12 (Patch_ctor 128 12)) ! n"
    by (rule conjunct1)
  from bspec[OF this root_children_visited(1)] le root_children_visited(1) show ?thesis
    by blast
qed

theorem ComputeVariance_entry_zero_counterexample:
  "0 < length (varianceLeft (ComputeVariance 128 12 (Patch_ctor 128 12))) \<and>
   \<not> 0 < varianceLeft (ComputeVariance 128 12 (Patch_ctor 128 12)) ! 0"
proof -
  have z: "0 \<notin> set (variance_nodes (0, 128) (128, 0) (0, 0) 1)"
    by (rule zero_not_visited) simp
  have "varianceLeft (ComputeVariance 128 12 (Patch_ctor 128 12)) ! 0 =
        varianceLeft (Patch_ctor 128 12) ! 0"
    unfolding ComputeVariance_left by (rule RCV_frame[OF z])
  also have "\<dots> = 0"
    by (simp add: Patch_ctor_variance)
  finally have v: "varianceLeft (ComputeVariance 128 12 (Patch_ctor 128 12)) ! 0 = 0" .
  have "length (varianceLeft (ComputeVariance 128 12 (Patch_ctor 128 12))) = 2 ^ 12"
    unfolding ComputeVariance_left by (simp only: RCV_length Patch_ctor_variance length_replicate)
  then show ?thesis using v by simp
qed

text \<open>
  Claim C4. After \<^verbatim>\<open>ComputeVariance\<close>, for every node \<open>n\<close> that the recursion has visited
  together with its children \<open>2n\<close> and \<open>2n + 1\<close>, all three indices inside the array, the
  value stored at \<open>n\<close> is at least the value stored at either child; in both arrays.
\<close>

theorem ComputeVariance_parent_ge_children:
  assumes "length (varianceLeft p) = 2 ^ VD" and "length (varianceRight p) = 2 ^ VD"
  shows "(\<forall>n. n \<in> set (variance_nodes (0, PS) (PS, 0) (0, 0) 1) \<and>
              2 * n \<in> set (variance_nodes (0, PS) (PS, 0) (0, 0) 1) \<and>
              2 * n + 1 \<in> set (variance_nodes (0, PS) (PS, 0) (0, 0) 1) \<and>
              2 * n + 1 < 2 ^ VD \<longrightarrow>
            varianceLeft (ComputeVariance PS VD p) ! (2 * n)
              \<le> varianceLeft (ComputeVariance PS VD p) ! n \<and>
            varianceLeft (ComputeVariance PS VD p) ! (2 * n + 1)
              \<le> varianceLeft (ComputeVariance PS VD p) ! n) \<and>
         (\<forall>n. n \<in> set (variance_nodes (PS, 0) (0, PS) (PS, PS) 1) \<and>
              2 * n \<in> set (variance_nodes (PS, 0) (0, PS) (PS, PS) 1) \<and>
              2 * n + 1 \<in> set (variance_nodes (PS, 0) (0, PS) (PS, PS) 1) \<and>
              2 * n + 1 < 2 ^ VD \<longrightarrow>
            varianceRight (ComputeVariance PS VD p) ! (2 * n)
              \<le> varianceRight (ComputeVariance PS VD p) ! n \<and>
            varianceRight (ComputeVariance PS VD p) ! (2 * n + 1)
              \<le> varianceRight (ComputeVariance PS VD p) ! n)"
proof -
  have one: "0 < (1::nat)" by simp
  have l: "varianceLeft (ComputeVariance PS VD p) ! (2 * n)
              \<le> varianceLeft (ComputeVariance PS VD p) ! n \<and>
           varianceLeft (ComputeVariance PS VD p) ! (2 * n + 1)
              \<le> varianceLeft (ComputeVariance PS VD p) ! n"
    if "n \<in> set (variance_nodes (0, PS) (PS, 0) (0, 0) 1)"
       "2 * n \<in> set (variance_nodes (0, PS) (PS, 0) (0, 0) 1)"
       "2 * n + 1 \<in> set (variance_nodes (0, PS) (PS, 0) (0, 0) 1)"
       "2 * n + 1 < 2 ^ VD" for n
  proof -
    have len: "2 * n + 1 < length (varianceLeft p)" using that(4) assms(1) by simp
    show ?thesis
      unfolding ComputeVariance_left
      by (rule RCV_monotone[OF one that(1) that(2) that(3) that(4) len])
  qed
  have r: "varianceRight (ComputeVariance PS VD p) ! (2 * n)
              \<le> varianceRight (ComputeVariance PS VD p) ! n \<and>
           varianceRight (ComputeVariance PS VD p) ! (2 * n + 1)
              \<le> varianceRight (ComputeVariance PS VD p) ! n"
    if "n \<in> set (variance_nodes (PS, 0) (0, PS) (PS, PS) 1)"
       "2 * n \<in> set (variance_nodes (PS, 0) (0, PS) (PS, PS) 1)"
       "2 * n + 1 \<in> set (variance_nodes (PS, 0) (0, PS) (PS, PS) 1)"
       "2 * n + 1 < 2 ^ VD" for n
  proof -
    have len: "2 * n + 1 < length (varianceRight p)" using that(4) assms(2) by simp
    show ?thesis
      unfolding ComputeVariance_right
      by (rule RCV_monotone[OF one that(1) that(2) that(3) that(4) len])
  qed
  from l r show ?thesis by blast
qed

theorem ComputeVariance_parent_ge_children_witness:
  "1 \<in> set (variance_nodes (0, 128) (128, 0) (0, 0) 1) \<and>
   2 \<in> set (variance_nodes (0, 128) (128, 0) (0, 0) 1) \<and>
   3 \<in> set (variance_nodes (0, 128) (128, 0) (0, 0) 1) \<and>
   varianceLeft (ComputeVariance 128 12 (Patch_ctor 128 12)) ! 2
     \<le> varianceLeft (ComputeVariance 128 12 (Patch_ctor 128 12)) ! 1 \<and>
   varianceLeft (ComputeVariance 128 12 (Patch_ctor 128 12)) ! 3
     \<le> varianceLeft (ComputeVariance 128 12 (Patch_ctor 128 12)) ! 1"
proof -
  have len: "length (varianceLeft (Patch_ctor 128 12)) = 2 ^ 12"
    "length (varianceRight (Patch_ctor 128 12)) = 2 ^ 12"
    by (simp_all only: Patch_ctor_variance length_replicate)
  have "\<forall>n. n \<in> set (variance_nodes (0, 128) (128, 0) (0, 0) 1) \<and>
              2 * n \<in> set (variance_nodes (0, 128) (128, 0) (0, 0) 1) \<and>
              2 * n + 1 \<in> set (variance_nodes (0, 128) (128, 0) (0, 0) 1) \<and>
              2 * n + 1 < 2 ^ 12 \<longrightarrow>
            varianceLeft (ComputeVariance 128 12 (Patch_ctor 128 12)) ! (2 * n)
              \<le> varianceLeft (ComputeVariance 128 12 (Patch_ctor 128 12)) ! n \<and>
            varianceLeft (ComputeVariance 128 12 (Patch_ctor 128 12)) ! (2 * n + 1)
              \<le> varianceLeft (ComputeVariance 128 12 (Patch_ctor 128 12)) ! n"
    by (rule conjunct1[OF ComputeVariance_parent_ge_children[OF len, of 128]])
  from spec[OF this, of 1] root_children_visited show ?thesis
    by simp
qed

subsection \<open>Properties of Split\<close>

lemma Split_branch:
  "load s tri = Some t \<Longrightarrow> \<not> IsLeaf t \<Longrightarrow> Split s tri = Some (True, s)"
  by (subst Split.simps) simp

lemma Split_leaf:
  "load s tri = Some t \<Longrightarrow> IsLeaf t \<Longrightarrow>
   Split s tri = do {
     s1 \<leftarrow> before_allocation s tri;
     allocated \<leftarrow> allocate_children s1 tri;
     if \<not> fst allocated then Some (False, snd allocated)
     else do {
       s2 \<leftarrow> link_into_mesh (snd allocated) tri;
       t2 \<leftarrow> load s2 tri;
       (case BaseNeighbor t2 of
          Some b \<Rightarrow> do {
            bn \<leftarrow> load s2 b;
            if IsBranch bn then do { s3 \<leftarrow> cross_link s2 tri; Some (True, s3) }
            else do { cascaded \<leftarrow> Split s2 b; Some (True, snd cascaded) }
          }
        | None \<Rightarrow> do { s3 \<leftarrow> clear_outward s2 tri; Some (True, s3) })
     }
   }"
  by (subst Split.simps) (simp add: before_allocation_def)

lemma load_store_defined:
  "load s r = Some n \<Longrightarrow> \<exists>s'. store s r n' = Some s'"
  by (cases r) (auto simp: load_def store_def split: option.splits if_splits)

lemma store_same:
  "load s r = Some n \<Longrightarrow> store s r n = Some s"
  by (cases r) (auto simp: load_def store_def split: option.splits if_splits)

lemma store_pool_exhausted:
  "store s r n = Some s' \<Longrightarrow> curTriPool s = Some pl \<Longrightarrow>
   \<exists>pl'. curTriPool s' = Some pl' \<and> OutOfNodes pl' = OutOfNodes pl"
  by (cases r) (auto simp: store_def OutOfNodes_def split: option.splits if_splits)

lemma allocate_children_result:
  assumes "allocate_children s tri = Some (ok, s')"
  shows "\<exists>pl pl'. curTriPool s = Some pl \<and> ok = (\<not> OutOfNodes pl) \<and>
           curTriPool s' = Some pl' \<and> (\<not> ok \<longrightarrow> OutOfNodes pl')"
proof -
  from assms obtain pl t where pl: "curTriPool s = Some pl" and t: "load s tri = Some t"
    by (auto simp: allocate_children_def split: bind_splits)
  show ?thesis
  proof (cases "OutOfNodes pl")
    case True
    with assms pl t have ok: "ok = False"
      and st: "store (s\<lparr>curTriPool := Some pl\<rparr>) tri (t\<lparr>LeftChild := None, RightChild := None\<rparr>) = Some s'"
      by (auto simp: allocate_children_def Allocate_def split: bind_splits)
    from store_pool_exhausted[OF st] True obtain pl' where
      "curTriPool s' = Some pl'" "OutOfNodes pl'" by auto
    with pl ok True show ?thesis by simp
  next
    case False
    with assms pl t have ok: "ok = True"
      and st: "store (s\<lparr>curTriPool := Some (pl\<lparr>nextTriNodeIdx := nextTriNodeIdx pl + 2\<rparr>)\<rparr>) tri
                 (t\<lparr>LeftChild := Some (PoolNode (nextTriNodeIdx pl)),
                    RightChild := Some (PoolNode (nextTriNodeIdx pl + 1))\<rparr>) = Some s'"
      by (auto simp: allocate_children_def Allocate_def split: bind_splits)
    from store_pool_exhausted[OF st] obtain pl' where "curTriPool s' = Some pl'" by auto
    with pl ok False show ?thesis by simp
  qed
qed

lemma allocate_children_exhausted:
  assumes "curTriPool s = Some pl" "OutOfNodes pl" "load s tri = Some t"
  shows "allocate_children s tri =
           store s tri (t\<lparr>LeftChild := None, RightChild := None\<rparr>) \<bind> (\<lambda>s'. Some (False, s'))"
proof -
  have e: "s\<lparr>curTriPool := Some pl\<rparr> = s" using assms(1) by simp
  from assms show ?thesis
    by (simp add: allocate_children_def Allocate_def e)
qed

lemma Split_false_exhausted:
  assumes "Split s tri = Some (False, s')"
  shows "\<exists>pl. curTriPool s' = Some pl \<and> OutOfNodes pl"
proof -
  from assms obtain t where t: "load s tri = Some t"
    by (subst (asm) Split.simps) (auto split: bind_splits)
  have leaf: "IsLeaf t"
  proof (rule ccontr)
    assume "\<not> IsLeaf t"
    from Split_branch[OF t this] assms show False by simp
  qed
  from assms[unfolded Split_leaf[OF t leaf]]
  obtain s1 allocated where "allocate_children s1 tri = Some allocated"
    and "\<not> fst allocated" and "snd allocated = s'"
    by (auto split: bind_splits if_splits option.splits)
  then have "allocate_children s1 tri = Some (False, s')"
    by (cases allocated) simp
  from allocate_children_result[OF this] show ?thesis by auto
qed


lemma load_defined_extent:
  "pool_extent s' = pool_extent s \<Longrightarrow> load s r = Some n \<Longrightarrow> \<exists>n'. load s' r = Some n'"
  by (cases r) (auto simp: load_def pool_extent_def split: option.splits if_splits)

lemma store_extent: "store s r n = Some s' \<Longrightarrow> pool_extent s' = pool_extent s"
  by (cases r) (auto simp: store_def pool_extent_def split: option.splits if_splits)

lemma modify_extent: "modify s r f = Some s' \<Longrightarrow> pool_extent s' = pool_extent s"
  by (auto simp: modify_def store_extent split: option.splits)

lemma allocate_children_extent:
  "allocate_children s tri = Some (ok, s') \<Longrightarrow> pool_extent s' = pool_extent s"
  by (auto simp: allocate_children_def Allocate_def pool_extent_def
      split: bind_splits if_splits dest!: store_extent)

lemma link_children_extent: "link_children s tri = Some s' \<Longrightarrow> pool_extent s' = pool_extent s"
  by (auto simp: link_children_def split: bind_splits dest!: modify_extent)

lemma relink_left_extent: "relink_left s tri = Some s' \<Longrightarrow> pool_extent s' = pool_extent s"
  by (auto simp: relink_left_def split: bind_splits option.splits if_splits dest!: modify_extent)

lemma relink_right_extent: "relink_right s tri = Some s' \<Longrightarrow> pool_extent s' = pool_extent s"
  by (auto simp: relink_right_def split: bind_splits option.splits if_splits dest!: modify_extent)

lemma link_into_mesh_extent: "link_into_mesh s tri = Some s' \<Longrightarrow> pool_extent s' = pool_extent s"
  by (auto simp: link_into_mesh_def split: bind_splits
      dest!: link_children_extent relink_left_extent relink_right_extent)

lemma cross_link_extent: "cross_link s tri = Some s' \<Longrightarrow> pool_extent s' = pool_extent s"
  by (auto simp: cross_link_def split: bind_splits dest!: modify_extent)

lemma clear_outward_extent: "clear_outward s tri = Some s' \<Longrightarrow> pool_extent s' = pool_extent s"
  by (auto simp: clear_outward_def split: bind_splits dest!: modify_extent)

lemma Split_extent:
  assumes "Split s tri = Some res"
  shows "pool_extent (snd res) = pool_extent s"
proof (rule Split.raw_induct[where P = "\<lambda>s tri res. pool_extent (snd res) = pool_extent s",
        OF _ assms], goal_cases)
  case (1 f s tri res)
  note IH = 1(1)
  from 1(2) obtain t where t: "load s tri = Some t"
    by (auto split: bind_splits)
  show ?case
  proof (cases "IsLeaf t")
    case False
    with 1(2) t show ?thesis by auto
  next
    case True
    with 1(2) t obtain s1 al where
      s1: "(case BaseNeighbor t of
               None \<Rightarrow> Some s
             | Some b \<Rightarrow> do {
                 bn \<leftarrow> load s b;
                 if BaseNeighbor bn \<noteq> Some tri
                 then do { forced \<leftarrow> f s b; Some (snd forced) }
                 else Some s
               }) = Some s1"
      and al: "allocate_children s1 tri = Some al"
      and rest: "(if \<not> fst al then Some (False, snd al)
       else do {
         s \<leftarrow> link_into_mesh (snd al) tri;
         t \<leftarrow> load s tri;
         (case BaseNeighbor t of
            Some b \<Rightarrow> do {
              bn \<leftarrow> load s b;
              if IsBranch bn then do { s \<leftarrow> cross_link s tri; Some (True, s) }
              else do { cascaded \<leftarrow> f s b; Some (True, snd cascaded) }
            }
          | None \<Rightarrow> do { s \<leftarrow> clear_outward s tri; Some (True, s) })
       }) = Some res"
      by (auto simp: bind_eq_Some_conv)
    from s1 have e1: "pool_extent s1 = pool_extent s"
      by (auto split: option.splits bind_splits if_splits dest: IH)
    from al have e2: "pool_extent (snd al) = pool_extent s1"
      by (cases al) (auto dest: allocate_children_extent)
    show ?thesis
    proof (cases "fst al")
      case False
      with rest e1 e2 show ?thesis by auto
    next
      case True
      with rest have "\<exists>s2. link_into_mesh (snd al) tri = Some s2 \<and> (\<exists>t2. load s2 tri = Some t2 \<and>
          (case BaseNeighbor t2 of
            Some b \<Rightarrow> do {
              bn \<leftarrow> load s2 b;
              if IsBranch bn then do { s \<leftarrow> cross_link s2 tri; Some (True, s) }
              else do { cascaded \<leftarrow> f s2 b; Some (True, snd cascaded) }
            }
          | None \<Rightarrow> do { s \<leftarrow> clear_outward s2 tri; Some (True, s) }) = Some res)"
        by (simp add: bind_eq_Some_conv)
      then obtain s2 t2 where l: "link_into_mesh (snd al) tri = Some s2"
        and ld: "load s2 tri = Some t2"
        and fin: "(case BaseNeighbor t2 of
            Some b \<Rightarrow> do {
              bn \<leftarrow> load s2 b;
              if IsBranch bn then do { s \<leftarrow> cross_link s2 tri; Some (True, s) }
              else do { cascaded \<leftarrow> f s2 b; Some (True, snd cascaded) }
            }
          | None \<Rightarrow> do { s \<leftarrow> clear_outward s2 tri; Some (True, s) }) = Some res"
        by blast
      from fin have "pool_extent (snd res) = pool_extent s2"
        by (auto split: option.splits bind_splits if_splits
            dest: IH cross_link_extent clear_outward_extent)
      with link_into_mesh_extent[OF l] e1 e2 show ?thesis by simp
    qed
  qed
qed

lemma Split_own_allocation_fails:
  assumes "load s tri = Some t" and "IsLeaf t"
    and "before_allocation s tri = Some s1" and "pool_extent s1 = pool_extent s"
    and "curTriPool s1 = Some pl" and "OutOfNodes pl"
  shows "\<exists>t1 s2. load s1 tri = Some t1 \<and>
           store s1 tri (t1\<lparr>LeftChild := None, RightChild := None\<rparr>) = Some s2 \<and>
           Split s tri = Some (False, s2)"
proof -
  from load_defined_extent[OF assms(4) assms(1)] obtain t1 where t1: "load s1 tri = Some t1" ..
  from load_store_defined[OF t1] obtain s2 where
    s2: "store s1 tri (t1\<lparr>LeftChild := None, RightChild := None\<rparr>) = Some s2" by blast
  then have "allocate_children s1 tri = Some (False, s2)"
    using allocate_children_exhausted[OF assms(5,6) t1] by simp
  with assms(3) have "Split s tri = Some (False, s2)"
    by (simp add: Split_leaf[OF assms(1,2)])
  with t1 s2 show ?thesis by blast
qed


lemma Patch_ctor_nodes:
  "baseLeft (Patch_ctor PS VD) = TriTreeNode_zero"
  "baseRight (Patch_ctor PS VD) = TriTreeNode_zero"
  "curTriPool (Patch_ctor PS VD) = None"
  by (simp_all add: Patch_ctor_def)

lemma example_roots:
  "load diamond_before BaseLeftRef = Some (TriTreeNode_zero\<lparr>BaseNeighbor := Some BaseRightRef\<rparr>)"
  "load diamond_before BaseRightRef = Some (TriTreeNode_zero\<lparr>BaseNeighbor := Some BaseLeftRef\<rparr>)"
  "load exhausted_patch BaseLeftRef = Some (TriTreeNode_zero\<lparr>BaseNeighbor := Some BaseRightRef\<rparr>)"
  "load exhausted_patch BaseRightRef = Some (TriTreeNode_zero\<lparr>BaseNeighbor := Some BaseLeftRef\<rparr>)"
  by (simp_all add: load_def diamond_before_def exhausted_patch_def fresh_patch_def Patch_Reset_def)

lemma hanging_nodes:
  "load hanging_patch BaseLeftRef = Some (TriTreeNode_zero\<lparr>BaseNeighbor := Some (OtherNode 0)\<rparr>)"
  "load hanging_patch (OtherNode 0) = Some TriTreeNode_zero"
  "curTriPool hanging_patch =
     Some \<lparr>pool = [TriTreeNode_zero, TriTreeNode_zero], nextTriNodeIdx = 2\<rparr>"
  by (simp_all add: load_def hanging_patch_def exhausted_patch_def fresh_patch_def
        Patch_Reset_def Patch_ctor_def)

lemma diamond_allocate:
  "allocate_children diamond_before BaseLeftRef = Some (True, diamond_allocated)"
  by (simp add: allocate_children_def Allocate_def OutOfNodes_def load_def store_def
        diamond_before_def diamond_allocated_def fresh_patch_def Patch_Reset_def)

lemma diamond_link:
  "link_into_mesh diamond_allocated BaseLeftRef = Some diamond_linked"
  by (simp add: link_into_mesh_def link_children_def relink_left_def relink_right_def
        modify_def load_def store_def diamond_linked_def diamond_allocated_def
        diamond_before_def fresh_patch_def Patch_Reset_def TriTreeNode_zero_def)

lemma diamond_linked_roots:
  "load diamond_linked BaseLeftRef =
     Some (TriTreeNode_zero\<lparr>LeftChild := Some (PoolNode 0), RightChild := Some (PoolNode 1),
                            BaseNeighbor := Some BaseRightRef\<rparr>)"
  "load diamond_linked BaseRightRef = Some (TriTreeNode_zero\<lparr>BaseNeighbor := Some BaseLeftRef\<rparr>)"
  "curTriPool diamond_linked =
     Some \<lparr>pool = [TriTreeNode_zero\<lparr>LeftNeighbor := Some (PoolNode 1)\<rparr>,
                  TriTreeNode_zero\<lparr>RightNeighbor := Some (PoolNode 0)\<rparr>],
           nextTriNodeIdx = 2\<rparr>"
  by (simp_all add: load_def diamond_linked_def diamond_allocated_def diamond_before_def
        fresh_patch_def Patch_Reset_def)

lemma hanging_roots:
  "load hanging_before BaseLeftRef = Some (TriTreeNode_zero\<lparr>BaseNeighbor := Some (OtherNode 0)\<rparr>)"
  "load hanging_before (OtherNode 0) = Some (TriTreeNode_zero\<lparr>LeftNeighbor := Some BaseLeftRef\<rparr>)"
  "load hanging_forced BaseLeftRef = Some (TriTreeNode_zero\<lparr>BaseNeighbor := Some (PoolNode 0)\<rparr>)"
  "curTriPool hanging_forced = Some
          \<lparr>pool = [TriTreeNode_zero\<lparr>LeftNeighbor := Some (PoolNode 1),
                                     BaseNeighbor := Some BaseLeftRef\<rparr>,
                   TriTreeNode_zero\<lparr>RightNeighbor := Some (PoolNode 0)\<rparr>],
           nextTriNodeIdx = 2\<rparr>"
  by (simp_all add: load_def hanging_before_def hanging_forced_def diamond_before_def
        fresh_patch_def Patch_Reset_def)

lemma hanging_forced_split:
  "Split hanging_before (OtherNode 0) = Some (True, hanging_forced)"
proof -
  have leaf: "IsLeaf (TriTreeNode_zero\<lparr>LeftNeighbor := Some BaseLeftRef\<rparr>)"
    by (simp add: IsLeaf_def TriTreeNode_zero_def)
  have b: "before_allocation hanging_before (OtherNode 0) = Some hanging_before"
    by (simp add: before_allocation_def hanging_roots TriTreeNode_zero_def)
  show ?thesis
    unfolding Split_leaf[OF hanging_roots(2) leaf] b
    by (simp add: allocate_children_def Allocate_def OutOfNodes_def
          link_into_mesh_def link_children_def relink_left_def relink_right_def clear_outward_def
          modify_def load_def store_def hanging_before_def hanging_forced_def
          diamond_before_def fresh_patch_def Patch_Reset_def TriTreeNode_zero_def)
qed

lemma diamond_entry:
  "before_allocation diamond_before BaseLeftRef = Some diamond_before"
  by (simp add: before_allocation_def example_roots TriTreeNode_zero_def)

lemma diamond_cascade:
  "Split diamond_linked BaseRightRef = Some (False, diamond_linked)"
proof -
  have leafR: "IsLeaf (TriTreeNode_zero\<lparr>BaseNeighbor := Some BaseLeftRef\<rparr>)"
    by (simp add: IsLeaf_def TriTreeNode_zero_def)
  have bR: "before_allocation diamond_linked BaseRightRef = Some diamond_linked"
    by (simp add: before_allocation_def diamond_linked_roots TriTreeNode_zero_def)
  have out: "OutOfNodes \<lparr>pool = [TriTreeNode_zero\<lparr>LeftNeighbor := Some (PoolNode 1)\<rparr>,
                  TriTreeNode_zero\<lparr>RightNeighbor := Some (PoolNode 0)\<rparr>],
           nextTriNodeIdx = 2\<rparr>"
    by (simp add: OutOfNodes_def)
  have "TriTreeNode_zero\<lparr>BaseNeighbor := Some BaseLeftRef, LeftChild := None, RightChild := None\<rparr>
        = TriTreeNode_zero\<lparr>BaseNeighbor := Some BaseLeftRef\<rparr>"
    by (simp add: TriTreeNode_zero_def)
  then have aR: "allocate_children diamond_linked BaseRightRef = Some (False, diamond_linked)"
    using allocate_children_exhausted[OF diamond_linked_roots(3) out diamond_linked_roots(2)]
          store_same[OF diamond_linked_roots(2)]
    by simp
  show ?thesis
    by (simp add: Split_leaf[OF diamond_linked_roots(2) leafR] bR aR)
qed

text \<open>
  Claim C1, as the code has it. For a leaf \<^verbatim>\<open>tri\<close>: (1) if no forced split is due and the
  pool is exhausted on entry, \<^verbatim>\<open>Split\<close> returns false at once and changes nothing; (2) if
  the forced split of a base neighbour that does not point back returns false, \<^verbatim>\<open>Split\<close>
  returns false as well; (3) if that forced split returns, with whatever result, and leaves
  the pool exhausted, \<^verbatim>\<open>Split\<close> writes null to both child fields of \<^verbatim>\<open>tri\<close> and returns
  false; (4) if the children of \<^verbatim>\<open>tri\<close> were allocated and linked and the base neighbour is
  still a leaf, \<^verbatim>\<open>Split\<close> returns true with the state that the split of that neighbour
  (line 269) leaves, whatever that split returned; (5) whenever \<^verbatim>\<open>Split\<close> returns, its
  result is false exactly when the pool was exhausted when the child pair of \<^verbatim>\<open>tri\<close>
  itself was requested. So exhaustion inside the cascaded split of line 269 is not
  reported.
\<close>

theorem Split_reports_own_allocation:
  assumes "load s tri = Some t" and "IsLeaf t"
  shows "((BaseNeighbor t = None \<or>
            (\<exists>b bn. BaseNeighbor t = Some b \<and> load s b = Some bn \<and> BaseNeighbor bn = Some tri)) \<and>
          (\<exists>pl. curTriPool s = Some pl \<and> OutOfNodes pl)
          \<longrightarrow> Split s tri = Some (False, s)) \<and>
         (\<forall>b bn s1. BaseNeighbor t = Some b \<and> load s b = Some bn \<and> BaseNeighbor bn \<noteq> Some tri \<and>
            Split s b = Some (False, s1)
          \<longrightarrow> (\<exists>s2. Split s tri = Some (False, s2))) \<and>
         (\<forall>b bn r1 s1 pl. BaseNeighbor t = Some b \<and> load s b = Some bn \<and>
            BaseNeighbor bn \<noteq> Some tri \<and> Split s b = Some (r1, s1) \<and>
            curTriPool s1 = Some pl \<and> OutOfNodes pl
          \<longrightarrow> (\<exists>t1 s2. load s1 tri = Some t1 \<and>
                 store s1 tri (t1\<lparr>LeftChild := None, RightChild := None\<rparr>) = Some s2 \<and>
                 Split s tri = Some (False, s2))) \<and>
         (\<forall>s1 sa s2 t2 b bn r3 s3. before_allocation s tri = Some s1 \<and>
            allocate_children s1 tri = Some (True, sa) \<and> link_into_mesh sa tri = Some s2 \<and>
            load s2 tri = Some t2 \<and> BaseNeighbor t2 = Some b \<and> load s2 b = Some bn \<and>
            \<not> IsBranch bn \<and> Split s2 b = Some (r3, s3)
          \<longrightarrow> Split s tri = Some (True, s3)) \<and>
         (\<forall>r s'. Split s tri = Some (r, s')
          \<longrightarrow> (\<exists>s1 pl. before_allocation s tri = Some s1 \<and> curTriPool s1 = Some pl \<and>
                 r = (\<not> OutOfNodes pl)))"
proof (intro conjI impI allI)
  assume a: "(BaseNeighbor t = None \<or>
            (\<exists>b bn. BaseNeighbor t = Some b \<and> load s b = Some bn \<and> BaseNeighbor bn = Some tri)) \<and>
          (\<exists>pl. curTriPool s = Some pl \<and> OutOfNodes pl)"
  then obtain pl where pl: "curTriPool s = Some pl" "OutOfNodes pl" by blast
  from a assms(1) have b: "before_allocation s tri = Some s"
    by (auto simp: before_allocation_def)
  from assms(2) have "t\<lparr>LeftChild := None, RightChild := None\<rparr> = t"
    by (simp add: IsLeaf_def)
  then have "allocate_children s tri = Some (False, s)"
    using allocate_children_exhausted[OF pl assms(1)] store_same[OF assms(1)] by simp
  with b show "Split s tri = Some (False, s)"
    by (simp add: Split_leaf[OF assms])
next
  fix b bn s1
  assume a: "BaseNeighbor t = Some b \<and> load s b = Some bn \<and> BaseNeighbor bn \<noteq> Some tri \<and>
            Split s b = Some (False, s1)"
  with assms(1) have b: "before_allocation s tri = Some s1"
    by (simp add: before_allocation_def)
  from a Split_false_exhausted obtain pl where pl: "curTriPool s1 = Some pl" "OutOfNodes pl"
    by blast
  from a have "Split s b = Some (False, s1)" by simp
  from Split_extent[OF this] have e: "pool_extent s1 = pool_extent s" by simp
  from Split_own_allocation_fails[OF assms b e pl]
  show "\<exists>s2. Split s tri = Some (False, s2)" by blast
next
  fix b bn r1 s1 pl
  assume a: "BaseNeighbor t = Some b \<and> load s b = Some bn \<and>
            BaseNeighbor bn \<noteq> Some tri \<and> Split s b = Some (r1, s1) \<and>
            curTriPool s1 = Some pl \<and> OutOfNodes pl"
  with assms(1) have b: "before_allocation s tri = Some s1"
    by (simp add: before_allocation_def)
  from a have "Split s b = Some (r1, s1)" by simp
  from Split_extent[OF this] have e: "pool_extent s1 = pool_extent s" by simp
  from a have pl: "curTriPool s1 = Some pl" "OutOfNodes pl" by simp_all
  from Split_own_allocation_fails[OF assms b e pl]
  show "\<exists>t1 s2. load s1 tri = Some t1 \<and>
                 store s1 tri (t1\<lparr>LeftChild := None, RightChild := None\<rparr>) = Some s2 \<and>
                 Split s tri = Some (False, s2)" .
next
  fix s1 sa s2 t2 b bn r3 s3
  assume a: "before_allocation s tri = Some s1 \<and>
            allocate_children s1 tri = Some (True, sa) \<and> link_into_mesh sa tri = Some s2 \<and>
            load s2 tri = Some t2 \<and> BaseNeighbor t2 = Some b \<and> load s2 b = Some bn \<and>
            \<not> IsBranch bn \<and> Split s2 b = Some (r3, s3)"
  then show "Split s tri = Some (True, s3)"
    by (simp add: Split_leaf[OF assms])
next
  fix r s'
  assume "Split s tri = Some (r, s')"
  from this[unfolded Split_leaf[OF assms]]
  obtain s1 ok sa where b: "before_allocation s tri = Some s1"
    and al: "allocate_children s1 tri = Some (ok, sa)" and r: "r = ok"
    by (auto split: bind_splits if_splits option.splits)
  from allocate_children_result[OF al] r b
  show "\<exists>s1 pl. before_allocation s tri = Some s1 \<and> curTriPool s1 = Some pl \<and>
                 r = (\<not> OutOfNodes pl)"
    by blast
qed


theorem Split_reports_own_allocation_witness:
  "Split exhausted_patch BaseLeftRef = Some (False, exhausted_patch) \<and>
   Split hanging_patch (OtherNode 0) = Some (False, hanging_patch) \<and>
   map_option fst (Split hanging_patch BaseLeftRef) = Some False \<and>
   Split hanging_before (OtherNode 0) = Some (True, hanging_forced) \<and>
   Split hanging_before BaseLeftRef = Some (False, hanging_forced) \<and>
   Split diamond_linked BaseRightRef = Some (False, diamond_linked) \<and>
   Split diamond_before BaseLeftRef = Some (True, diamond_linked)"
proof -
  have leaf: "IsLeaf (TriTreeNode_zero\<lparr>BaseNeighbor := Some BaseRightRef\<rparr>)"
    and leaf0: "IsLeaf TriTreeNode_zero"
    and leafL: "IsLeaf (TriTreeNode_zero\<lparr>BaseNeighbor := Some (OtherNode 0)\<rparr>)"
    and leafR: "\<not> IsBranch (TriTreeNode_zero\<lparr>BaseNeighbor := Some BaseLeftRef\<rparr>)"
    by (simp_all add: IsLeaf_def IsBranch_def TriTreeNode_zero_def)
  have pl: "curTriPool exhausted_patch =
     Some \<lparr>pool = [TriTreeNode_zero, TriTreeNode_zero], nextTriNodeIdx = 2\<rparr>"
    by (simp add: exhausted_patch_def fresh_patch_def)
  have out: "OutOfNodes \<lparr>pool = [TriTreeNode_zero, TriTreeNode_zero], nextTriNodeIdx = 2\<rparr>"
    "OutOfNodes \<lparr>pool = [TriTreeNode_zero\<lparr>LeftNeighbor := Some (PoolNode 1),
                                     BaseNeighbor := Some BaseLeftRef\<rparr>,
                   TriTreeNode_zero\<lparr>RightNeighbor := Some (PoolNode 0)\<rparr>],
           nextTriNodeIdx = 2\<rparr>"
    by (simp_all add: OutOfNodes_def)
  have nb: "BaseNeighbor TriTreeNode_zero = None"
    "BaseNeighbor (TriTreeNode_zero\<lparr>LeftNeighbor := Some BaseLeftRef\<rparr>) = None"
    by (simp_all add: TriTreeNode_zero_def)
  note own_th = Split_reports_own_allocation[OF example_roots(3) leaf]
  have own: "Split exhausted_patch BaseLeftRef = Some (False, exhausted_patch)"
    using own_th example_roots(4) pl out(1) by simp
  have forced: "Split hanging_patch (OtherNode 0) = Some (False, hanging_patch)"
    using Split_reports_own_allocation[OF hanging_nodes(2) leaf0] hanging_nodes(3) out(1) nb(1)
    by blast
  note hang_th = Split_reports_own_allocation[OF hanging_nodes(1) leafL]
  have "BaseNeighbor (TriTreeNode_zero\<lparr>BaseNeighbor := Some (OtherNode 0)\<rparr>) = Some (OtherNode 0) \<and>
        load hanging_patch (OtherNode 0) = Some TriTreeNode_zero \<and>
        BaseNeighbor TriTreeNode_zero \<noteq> Some BaseLeftRef \<and>
        Split hanging_patch (OtherNode 0) = Some (False, hanging_patch)"
    using hanging_nodes forced nb by simp
  with hang_th have "\<exists>s2. Split hanging_patch BaseLeftRef = Some (False, s2)"
    by blast
  then have cascaded: "map_option fst (Split hanging_patch BaseLeftRef) = Some False"
    by auto
  note before_th = Split_reports_own_allocation[OF hanging_roots(1) leafL]
  have "BaseNeighbor (TriTreeNode_zero\<lparr>BaseNeighbor := Some (OtherNode 0)\<rparr>) = Some (OtherNode 0) \<and>
        load hanging_before (OtherNode 0) = Some (TriTreeNode_zero\<lparr>LeftNeighbor := Some BaseLeftRef\<rparr>) \<and>
        BaseNeighbor (TriTreeNode_zero\<lparr>LeftNeighbor := Some BaseLeftRef\<rparr>) \<noteq> Some BaseLeftRef \<and>
        Split hanging_before (OtherNode 0) = Some (True, hanging_forced) \<and>
        curTriPool hanging_forced = Some
          \<lparr>pool = [TriTreeNode_zero\<lparr>LeftNeighbor := Some (PoolNode 1),
                                     BaseNeighbor := Some BaseLeftRef\<rparr>,
                   TriTreeNode_zero\<lparr>RightNeighbor := Some (PoolNode 0)\<rparr>],
           nextTriNodeIdx = 2\<rparr> \<and>
        OutOfNodes \<lparr>pool = [TriTreeNode_zero\<lparr>LeftNeighbor := Some (PoolNode 1),
                                     BaseNeighbor := Some BaseLeftRef\<rparr>,
                   TriTreeNode_zero\<lparr>RightNeighbor := Some (PoolNode 0)\<rparr>],
           nextTriNodeIdx = 2\<rparr>"
    using hanging_roots hanging_forced_split nb out(2) by simp
  with before_th have "\<exists>t1 s2. load hanging_forced BaseLeftRef = Some t1 \<and>
          store hanging_forced BaseLeftRef (t1\<lparr>LeftChild := None, RightChild := None\<rparr>) = Some s2 \<and>
          Split hanging_before BaseLeftRef = Some (False, s2)"
    by blast
  then obtain t1 s2 where ld: "load hanging_forced BaseLeftRef = Some t1"
    and st: "store hanging_forced BaseLeftRef (t1\<lparr>LeftChild := None, RightChild := None\<rparr>) = Some s2"
    and sp: "Split hanging_before BaseLeftRef = Some (False, s2)"
    by blast
  from ld hanging_roots(3) have "t1 = TriTreeNode_zero\<lparr>BaseNeighbor := Some (PoolNode 0)\<rparr>"
    by simp
  then have "t1\<lparr>LeftChild := None, RightChild := None\<rparr> = t1"
    by (simp add: TriTreeNode_zero_def)
  with st store_same[OF ld] have "s2 = hanging_forced" by simp
  with sp have late: "Split hanging_before BaseLeftRef = Some (False, hanging_forced)"
    by simp
  note dia_th = Split_reports_own_allocation[OF example_roots(1) leaf]
  have "before_allocation diamond_before BaseLeftRef = Some diamond_before \<and>
        allocate_children diamond_before BaseLeftRef = Some (True, diamond_allocated) \<and>
        link_into_mesh diamond_allocated BaseLeftRef = Some diamond_linked \<and>
        load diamond_linked BaseLeftRef =
          Some (TriTreeNode_zero\<lparr>LeftChild := Some (PoolNode 0), RightChild := Some (PoolNode 1),
                                 BaseNeighbor := Some BaseRightRef\<rparr>) \<and>
        BaseNeighbor (TriTreeNode_zero\<lparr>LeftChild := Some (PoolNode 0), RightChild := Some (PoolNode 1),
                                 BaseNeighbor := Some BaseRightRef\<rparr>) = Some BaseRightRef \<and>
        load diamond_linked BaseRightRef = Some (TriTreeNode_zero\<lparr>BaseNeighbor := Some BaseLeftRef\<rparr>) \<and>
        \<not> IsBranch (TriTreeNode_zero\<lparr>BaseNeighbor := Some BaseLeftRef\<rparr>) \<and>
        Split diamond_linked BaseRightRef = Some (False, diamond_linked)"
    using diamond_entry diamond_allocate diamond_link diamond_linked_roots leafR diamond_cascade
    by simp
  with dia_th have dropped: "Split diamond_before BaseLeftRef = Some (True, diamond_linked)"
    by blast
  from own forced cascaded hanging_forced_split late diamond_cascade dropped
  show ?thesis by simp
qed


theorem Split_cascaded_exhaustion_counterexample:
  "allocate_children diamond_before BaseLeftRef = Some (True, diamond_allocated) \<and>
   link_into_mesh diamond_allocated BaseLeftRef = Some diamond_linked \<and>
   Split diamond_linked BaseRightRef = Some (False, diamond_linked) \<and>
   Split diamond_before BaseLeftRef = Some (True, diamond_linked)"
proof -
  have leafR: "IsLeaf (TriTreeNode_zero\<lparr>BaseNeighbor := Some BaseLeftRef\<rparr>)"
    and leafL: "IsLeaf (TriTreeNode_zero\<lparr>BaseNeighbor := Some BaseRightRef\<rparr>)"
    by (simp_all add: IsLeaf_def TriTreeNode_zero_def)
  have bR: "before_allocation diamond_linked BaseRightRef = Some diamond_linked"
    by (simp add: before_allocation_def diamond_linked_roots TriTreeNode_zero_def)
  have out: "OutOfNodes \<lparr>pool = [TriTreeNode_zero\<lparr>LeftNeighbor := Some (PoolNode 1)\<rparr>,
                  TriTreeNode_zero\<lparr>RightNeighbor := Some (PoolNode 0)\<rparr>],
           nextTriNodeIdx = 2\<rparr>"
    by (simp add: OutOfNodes_def)
  have "TriTreeNode_zero\<lparr>BaseNeighbor := Some BaseLeftRef, LeftChild := None, RightChild := None\<rparr>
        = TriTreeNode_zero\<lparr>BaseNeighbor := Some BaseLeftRef\<rparr>"
    by (simp add: TriTreeNode_zero_def)
  then have aR: "allocate_children diamond_linked BaseRightRef = Some (False, diamond_linked)"
    using allocate_children_exhausted[OF diamond_linked_roots(3) out diamond_linked_roots(2)]
          store_same[OF diamond_linked_roots(2)]
    by simp
  have inner: "Split diamond_linked BaseRightRef = Some (False, diamond_linked)"
    by (simp add: Split_leaf[OF diamond_linked_roots(2) leafR] bR aR)
  have bL: "before_allocation diamond_before BaseLeftRef = Some diamond_before"
    by (simp add: before_allocation_def example_roots TriTreeNode_zero_def)
  have notbranch: "\<not> IsBranch (TriTreeNode_zero\<lparr>BaseNeighbor := Some BaseLeftRef\<rparr>)"
    using leafR by (simp add: IsBranch_def)
  have outer: "Split diamond_before BaseLeftRef = Some (True, diamond_linked)"
    by (simp add: Split_leaf[OF example_roots(1) leafL] bL diamond_allocate diamond_link
          diamond_linked_roots notbranch inner)
  from diamond_allocate diamond_link inner outer show ?thesis by simp
qed

text \<open>
  Claim C8. \<^verbatim>\<open>Split\<close> of a node that is already a branch returns true and leaves the whole
  state as it is: the node, its children, every neighbour pointer and the pool.
\<close>

theorem Split_on_branch_changes_nothing:
  "load s tri = Some t \<Longrightarrow> IsBranch t \<Longrightarrow> Split s tri = Some (True, s)"
  by (rule Split_branch) (simp_all add: IsBranch_def)

theorem Split_on_branch_changes_nothing_witness:
  "IsBranch (TriTreeNode_zero\<lparr>LeftChild := Some (PoolNode 0), RightChild := Some (PoolNode 1),
                            BaseNeighbor := Some BaseRightRef\<rparr>) \<and>
   Split diamond_linked BaseLeftRef = Some (True, diamond_linked)"
proof -
  have b: "IsBranch (TriTreeNode_zero\<lparr>LeftChild := Some (PoolNode 0), RightChild := Some (PoolNode 1),
                            BaseNeighbor := Some BaseRightRef\<rparr>)"
    by (simp add: IsBranch_def IsLeaf_def)
  from Split_on_branch_changes_nothing[OF diamond_linked_roots(1) b] b show ?thesis by simp
qed
subsection \<open>Properties of the single-precision arithmetic\<close>

lemma float_exponent_from_eq:
  "- 126 \<le> e \<Longrightarrow> e \<le> int n - 126 \<Longrightarrow> e = - 126 \<or> 2 powi e \<le> x \<Longrightarrow>
   e = int n - 126 \<or> x < 2 powi (e + 1) \<Longrightarrow> float_exponent_from n x = e"
proof (induction n)
  case 0
  then show ?case by simp
next
  case (Suc n)
  show ?case
  proof (cases "e = int n - 125")
    case True
    with Suc.prems have "2 powi e \<le> x" by auto
    with True show ?thesis by simp
  next
    case False
    with Suc.prems have le: "e + 1 \<le> int n - 125" and up: "x < 2 powi (e + 1)" by auto
    have "(2::real) powi (e + 1) \<le> 2 powi (int n - 125)"
      by (rule power_int_increasing[OF le]) simp
    with up have "\<not> 2 powi (int n - 125) \<le> x" by simp
    moreover have "float_exponent_from n x = e"
      using Suc.prems le up by (intro Suc.IH) simp_all
    ultimately show ?thesis by simp
  qed
qed

lemma float_exponent_eq:
  "- 126 \<le> e \<Longrightarrow> e \<le> 127 \<Longrightarrow> e = - 126 \<or> 2 powi e \<le> \<bar>x\<bar> \<Longrightarrow>
   e = 127 \<or> \<bar>x\<bar> < 2 powi (e + 1) \<Longrightarrow> float_exponent x = e"
  unfolding float_exponent_def by (rule float_exponent_from_eq) simp_all

lemma float_round_zero: "float_round 0 = Finite 0"
proof -
  have e: "float_exponent 0 = - 126"
    by (rule float_exponent_eq) simp_all
  show ?thesis
    by (simp add: float_round_def e round_half_even_def Let_def)
qed

text \<open>
  A finite result is a multiple of the unit in the last place of the binade of the exact
  value, at most half a unit away from it.
\<close>

lemma round_half_even_near: "\<bar>real_of_int (round_half_even q) - q\<bar> \<le> 1 / 2"
  unfolding round_half_even_def Let_def by (auto split: if_splits)

lemma float_exponent_from_range: "- 126 \<le> float_exponent_from n x \<and> float_exponent_from n x \<le> int n - 126"
  by (induction n) auto

lemma float_exponent_range: "- 126 \<le> float_exponent x \<and> float_exponent x \<le> 127"
  using float_exponent_from_range[of 253 "\<bar>x\<bar>"] by (simp add: float_exponent_def)

lemma float_round_near:
  assumes "float_round x = Finite y"
  shows "\<bar>y - x\<bar> \<le> 2 powi (float_exponent x - 24)"
proof -
  define u :: real where "u = 2 powi (float_exponent x - 23)"
  have u: "0 < u" by (simp add: u_def)
  from assms have y: "y = of_int (round_half_even (x / u)) * u"
    by (auto simp: float_round_def Let_def u_def split: if_splits)
  have "y - x = (real_of_int (round_half_even (x / u)) - x / u) * u"
    using u by (simp add: y algebra_simps)
  then have "\<bar>y - x\<bar> = \<bar>real_of_int (round_half_even (x / u)) - x / u\<bar> * u"
    using u by (simp add: abs_mult)
  also have "\<dots> \<le> 1 / 2 * u"
    using round_half_even_near[of "x / u"] u by (intro mult_right_mono) simp_all
  also have "1 / 2 * u = 2 powi (float_exponent x - 24)"
    by (simp add: u_def power_int_diff)
  finally show ?thesis .
qed

lemma float_round_multiple:
  assumes "float_round x = Finite y"
  shows "\<exists>m::int. y = of_int m * 2 powi (float_exponent x - 23)"
  using assms by (auto simp: float_round_def Let_def split: if_splits)

text \<open>The values that the examples below meet; all but the last are exact.\<close>

lemma float_round_examples:
  "float_round 1 = Finite 1"
  "float_round 2 = Finite 2"
  "float_round 128 = Finite 128"
  "float_round 256 = Finite 256"
  "float_round 384 = Finite 384"
  "float_round 16384 = Finite 16384"
  "float_round 32768 = Finite 32768"
  "float_round 49152 = Finite 49152"
  "float_round (33554433 / 33554432) = Finite 1"
proof -
  have e: "float_exponent 1 = 0" "float_exponent 2 = 1" "float_exponent 128 = 7"
    "float_exponent 256 = 8" "float_exponent 384 = 8" "float_exponent 16384 = 14"
    "float_exponent 32768 = 15" "float_exponent 49152 = 15"
    "float_exponent (33554433 / 33554432) = 0"
    by (rule float_exponent_eq; simp)+
  show "float_round 1 = Finite 1"
    "float_round 2 = Finite 2"
    "float_round 128 = Finite 128"
    "float_round 256 = Finite 256"
    "float_round 384 = Finite 384"
    "float_round 16384 = Finite 16384"
    "float_round 32768 = Finite 32768"
    "float_round 49152 = Finite 49152"
    "float_round (33554433 / 33554432) = Finite 1"
    by (simp_all add: float_round_def e round_half_even_def Let_def)
qed

subsection \<open>Properties of the tessellation\<close>

lemma RecursTessellate_stop:
  assumes "\<not> (\<bar>fst left - fst right\<bar> \<le> 1 \<and> \<bar>snd left - snd right\<bar> \<le> 1)"
    and "triVariance PS VD s left right node = Some v" and "float_le v (Finite 1)"
  shows "RecursTessellate PS VD s tri left right apex node = Some s"
  using assms by (subst RecursTessellate.simps) simp

lemma RecursTessellate_split:
  assumes "\<not> (\<bar>fst left - fst right\<bar> \<le> 1 \<and> \<bar>snd left - snd right\<bar> \<le> 1)"
    and "triVariance PS VD s left right node = Some v" and "\<not> float_le v (Finite 1)"
  shows "RecursTessellate PS VD s tri left right apex node = do {
           split \<leftarrow> Split s tri;
           t \<leftarrow> load (snd split) tri;
           if IsBranch t then do {
             lc \<leftarrow> LeftChild t;
             s1 \<leftarrow> RecursTessellate PS VD (snd split) lc apex left
                     ((fst left + fst right) div 2, (snd left + snd right) div 2) (2 * node);
             t1 \<leftarrow> load s1 tri;
             rc \<leftarrow> RightChild t1;
             RecursTessellate PS VD s1 rc right apex
               ((fst left + fst right) div 2, (snd left + snd right) div 2) (2 * node + 1)
           }
           else Some (snd split)
         }"
proof -
  have c: "(\<bar>fst left - fst right\<bar> \<le> 1 \<and> \<bar>snd left - snd right\<bar> \<le> 1) = False"
    using assms(1) by simp
  have v: "float_le v (Finite 1) = False" using assms(3) by simp
  show ?thesis
    by (subst RecursTessellate.simps) (simp add: c v assms(2))
qed

lemma triVariance_stored:
  assumes "node < 2 ^ VD" "variance_array s = Some cv" "node < length cv"
  shows "triVariance PS VD s left right node =
         Some (float_mul
                  (float_mul
                     (float_mul (Finite (min (cv ! node) (varianceMaxLimit s))) (float_of_int PS))
                     (float_of_int (max \<bar>fst left - fst right\<bar> \<bar>snd left - snd right\<bar>)))
                  (Finite (camDistLODFactor s)))"
proof -
  have "max (a - b) (b - a) = \<bar>a - b\<bar>" for a b :: int by linarith
  then show ?thesis using assms by (simp add: triVariance_def Let_def)
qed

lemma triVariance_default:
  "\<not> node < 2 ^ VD \<Longrightarrow> triVariance PS VD s left right node = Some (Finite 10)"
  by (simp add: triVariance_def)

lemma example_variance:
  "variance_array threshold_patch = Some ((replicate (2 ^ 12) 0)[1 := 1])"
  "variance_array flat_patch = Some (replicate (2 ^ 12) 0)"
  "variance_array rounding_patch = Some ((replicate (2 ^ 12) 0)[1 := 3])"
  "variance_array steep_patch = Some ((replicate (2 ^ 12) 0)[1 := 2])"
  "variance_array steep_linked = Some ((replicate (2 ^ 12) 0)[1 := 2])"
  by (simp_all add: variance_array_def threshold_patch_def flat_patch_def rounding_patch_def
        steep_patch_def steep_linked_def diamond_before_def
        fresh_patch_def Patch_Reset_def Patch_ctor_variance)

lemma example_factors:
  "varianceMaxLimit flat_patch = (2 ^ 24 - 1) * 2 ^ 104" "camDistLODFactor flat_patch = 1"
  "varianceMaxLimit threshold_patch = 35" "camDistLODFactor threshold_patch = 1 / 16384"
  "varianceMaxLimit rounding_patch = 35" "camDistLODFactor rounding_patch = 11184811 / 549755813888"
  "varianceMaxLimit steep_patch = 35" "camDistLODFactor steep_patch = 1 / 16384"
  "varianceMaxLimit steep_linked = 35" "camDistLODFactor steep_linked = 1 / 16384"
  by (simp_all add: threshold_patch_def flat_patch_def rounding_patch_def steep_patch_def
        steep_linked_def diamond_before_def fresh_patch_def Patch_Reset_def Patch_ctor_def)

lemma example_spans:
  "\<not> (\<bar>fst ((0, 128) :: int2) - fst ((128, 0) :: int2)\<bar> \<le> 1 \<and>
      \<bar>snd ((0, 128) :: int2) - snd ((128, 0) :: int2)\<bar> \<le> 1)"
  "\<not> (\<bar>fst ((0, 0) :: int2) - fst ((0, 128) :: int2)\<bar> \<le> 1 \<and>
      \<bar>snd ((0, 0) :: int2) - snd ((0, 128) :: int2)\<bar> \<le> 1)"
  "\<not> (\<bar>fst ((128, 0) :: int2) - fst ((0, 0) :: int2)\<bar> \<le> 1 \<and>
      \<bar>snd ((128, 0) :: int2) - snd ((0, 0) :: int2)\<bar> \<le> 1)"
  by simp_all

lemma example_entries:
  "(1::nat) < 2 ^ 12" "(2::nat) < 2 ^ 12" "(3::nat) < 2 ^ 12"
  "1 < length ((replicate (2 ^ 12) (0::real))[1 := x])"
  "2 < length ((replicate (2 ^ 12) (0::real))[1 := x])"
  "3 < length ((replicate (2 ^ 12) (0::real))[1 := x])"
  "1 < length (replicate (2 ^ 12) (0::real))"
  "(replicate (2 ^ 12) (0::real))[1 := x] ! 1 = x"
  "(replicate (2 ^ 12) (0::real))[1 := x] ! 2 = 0"
  "(replicate (2 ^ 12) (0::real))[1 := x] ! 3 = 0"
  "replicate (2 ^ 12) (0::real) ! 1 = 0"
  by simp_all

lemma example_values:
  "triVariance 128 12 flat_patch (0, 128) (128, 0) 1 = Some (Finite 0)"
  "triVariance 128 12 threshold_patch (0, 128) (128, 0) 1 = Some (Finite 1)"
  "triVariance 128 12 rounding_patch (0, 128) (128, 0) 1 = Some (Finite 1)"
  "triVariance 128 12 steep_patch (0, 128) (128, 0) 1 = Some (Finite 2)"
  "triVariance 128 12 steep_linked (0, 0) (0, 128) 2 = Some (Finite 0)"
  "triVariance 128 12 steep_linked (128, 0) (0, 0) 3 = Some (Finite 0)"
proof -
  show "triVariance 128 12 flat_patch (0, 128) (128, 0) 1 = Some (Finite 0)"
    unfolding triVariance_stored[OF example_entries(1) example_variance(2) example_entries(7)]
      example_factors example_entries
    by (simp add: float_of_int_def float_round_examples float_round_zero)
  show "triVariance 128 12 threshold_patch (0, 128) (128, 0) 1 = Some (Finite 1)"
    unfolding triVariance_stored[OF example_entries(1) example_variance(1) example_entries(4)]
      example_factors example_entries
    by (simp add: float_of_int_def float_round_examples)
  show "triVariance 128 12 rounding_patch (0, 128) (128, 0) 1 = Some (Finite 1)"
    unfolding triVariance_stored[OF example_entries(1) example_variance(3) example_entries(4)]
      example_factors example_entries
    by (simp add: float_of_int_def float_round_examples)
  show "triVariance 128 12 steep_patch (0, 128) (128, 0) 1 = Some (Finite 2)"
    unfolding triVariance_stored[OF example_entries(1) example_variance(4) example_entries(4)]
      example_factors example_entries
    by (simp add: float_of_int_def float_round_examples)
  show "triVariance 128 12 steep_linked (0, 0) (0, 128) 2 = Some (Finite 0)"
    unfolding triVariance_stored[OF example_entries(2) example_variance(5) example_entries(5)]
      example_factors example_entries
    by (simp add: float_of_int_def float_round_examples float_round_zero)
  show "triVariance 128 12 steep_linked (128, 0) (0, 0) 3 = Some (Finite 0)"
    unfolding triVariance_stored[OF example_entries(3) example_variance(5) example_entries(6)]
      example_factors example_entries
    by (simp add: float_of_int_def float_round_examples float_round_zero)
qed

lemma steep_roots:
  "load steep_patch BaseLeftRef = Some (TriTreeNode_zero\<lparr>BaseNeighbor := Some BaseRightRef\<rparr>)"
  "load steep_patch BaseRightRef = Some (TriTreeNode_zero\<lparr>BaseNeighbor := Some BaseLeftRef\<rparr>)"
  "load steep_linked BaseLeftRef =
     Some (TriTreeNode_zero\<lparr>LeftChild := Some (PoolNode 0), RightChild := Some (PoolNode 1),
                            BaseNeighbor := Some BaseRightRef\<rparr>)"
  "load steep_linked BaseRightRef = Some (TriTreeNode_zero\<lparr>BaseNeighbor := Some BaseLeftRef\<rparr>)"
  "curTriPool steep_linked =
     Some \<lparr>pool = [TriTreeNode_zero\<lparr>LeftNeighbor := Some (PoolNode 1)\<rparr>,
                  TriTreeNode_zero\<lparr>RightNeighbor := Some (PoolNode 0)\<rparr>],
           nextTriNodeIdx = 2\<rparr>"
  by (simp_all add: load_def steep_linked_def steep_patch_def threshold_patch_def
        diamond_before_def fresh_patch_def Patch_Reset_def)

lemma steep_allocate:
  "allocate_children steep_patch BaseLeftRef =
     Some (True, steep_patch
       \<lparr>baseLeft := TriTreeNode_zero
          \<lparr>LeftChild := Some (PoolNode 0), RightChild := Some (PoolNode 1),
           BaseNeighbor := Some BaseRightRef\<rparr>,
        curTriPool := Some \<lparr>pool = [TriTreeNode_zero, TriTreeNode_zero], nextTriNodeIdx = 2\<rparr>\<rparr>)"
  by (simp add: allocate_children_def Allocate_def OutOfNodes_def load_def store_def
        steep_patch_def threshold_patch_def diamond_before_def fresh_patch_def Patch_Reset_def)

lemma steep_link:
  "link_into_mesh (steep_patch
       \<lparr>baseLeft := TriTreeNode_zero
          \<lparr>LeftChild := Some (PoolNode 0), RightChild := Some (PoolNode 1),
           BaseNeighbor := Some BaseRightRef\<rparr>,
        curTriPool := Some \<lparr>pool = [TriTreeNode_zero, TriTreeNode_zero], nextTriNodeIdx = 2\<rparr>\<rparr>)
     BaseLeftRef = Some steep_linked"
  by (simp add: link_into_mesh_def link_children_def relink_left_def relink_right_def
        modify_def load_def store_def steep_linked_def steep_patch_def threshold_patch_def
        diamond_before_def fresh_patch_def Patch_Reset_def TriTreeNode_zero_def)

lemma steep_cascade:
  "Split steep_linked BaseRightRef = Some (False, steep_linked)"
proof -
  have leafR: "IsLeaf (TriTreeNode_zero\<lparr>BaseNeighbor := Some BaseLeftRef\<rparr>)"
    by (simp add: IsLeaf_def TriTreeNode_zero_def)
  have bR: "before_allocation steep_linked BaseRightRef = Some steep_linked"
    by (simp add: before_allocation_def steep_roots TriTreeNode_zero_def)
  have out: "OutOfNodes \<lparr>pool = [TriTreeNode_zero\<lparr>LeftNeighbor := Some (PoolNode 1)\<rparr>,
                  TriTreeNode_zero\<lparr>RightNeighbor := Some (PoolNode 0)\<rparr>],
           nextTriNodeIdx = 2\<rparr>"
    by (simp add: OutOfNodes_def)
  have "TriTreeNode_zero\<lparr>BaseNeighbor := Some BaseLeftRef, LeftChild := None, RightChild := None\<rparr>
        = TriTreeNode_zero\<lparr>BaseNeighbor := Some BaseLeftRef\<rparr>"
    by (simp add: TriTreeNode_zero_def)
  then have aR: "allocate_children steep_linked BaseRightRef = Some (False, steep_linked)"
    using allocate_children_exhausted[OF steep_roots(5) out steep_roots(4)]
          store_same[OF steep_roots(4)]
    by simp
  show ?thesis
    by (simp add: Split_leaf[OF steep_roots(4) leafR] bR aR)
qed

lemma steep_split:
  "Split steep_patch BaseLeftRef = Some (True, steep_linked)"
proof -
  have leafL: "IsLeaf (TriTreeNode_zero\<lparr>BaseNeighbor := Some BaseRightRef\<rparr>)"
    and notbranch: "\<not> IsBranch (TriTreeNode_zero\<lparr>BaseNeighbor := Some BaseLeftRef\<rparr>)"
    by (simp_all add: IsLeaf_def IsBranch_def TriTreeNode_zero_def)
  have bL: "before_allocation steep_patch BaseLeftRef = Some steep_patch"
    by (simp add: before_allocation_def steep_roots TriTreeNode_zero_def)
  show ?thesis
    by (simp add: Split_leaf[OF steep_roots(1) leafL] bL steep_allocate steep_link
          steep_roots notbranch steep_cascade del: One_nat_def)
qed

text \<open>
  Claim C3, as the code has it. At a visited node whose hypotenuse spans more than one
  grid unit on some axis, \<^verbatim>\<open>triVariance\<close> is the stored error clamped to the variance
  ceiling and multiplied, in single precision, by the tile size, the extent of the
  triangle and the LOD factor when the node index is below \<open>2^VD\<close>, and the constant 10
  beyond. When \<^verbatim>\<open>triVariance <= 1.0f\<close> holds (the threshold included) the recursion stops
  there and the state is unchanged; when it does not hold (a value greater than 1, or
  NaN) the node is \<^verbatim>\<open>Split\<close> and, if it is a branch afterwards, the recursion goes into the
  left and then the right child.
\<close>

theorem RecursTessellate_threshold:
  assumes "\<not> (\<bar>fst left - fst right\<bar> \<le> 1 \<and> \<bar>snd left - snd right\<bar> \<le> 1)"
  shows "(\<forall>cv. node < 2 ^ VD \<and> variance_array s = Some cv \<and> node < length cv \<longrightarrow>
            triVariance PS VD s left right node =
              Some (float_mul
                      (float_mul
                         (float_mul (Finite (min (cv ! node) (varianceMaxLimit s))) (float_of_int PS))
                         (float_of_int (max \<bar>fst left - fst right\<bar> \<bar>snd left - snd right\<bar>)))
                      (Finite (camDistLODFactor s)))) \<and>
         (\<not> node < 2 ^ VD \<longrightarrow> triVariance PS VD s left right node = Some (Finite 10)) \<and>
         (\<forall>v. triVariance PS VD s left right node = Some v \<and> float_le v (Finite 1) \<longrightarrow>
            RecursTessellate PS VD s tri left right apex node = Some s) \<and>
         (\<forall>v. triVariance PS VD s left right node = Some v \<and> \<not> float_le v (Finite 1) \<longrightarrow>
            RecursTessellate PS VD s tri left right apex node = do {
              split \<leftarrow> Split s tri;
              t \<leftarrow> load (snd split) tri;
              if IsBranch t then do {
                lc \<leftarrow> LeftChild t;
                s1 \<leftarrow> RecursTessellate PS VD (snd split) lc apex left
                        ((fst left + fst right) div 2, (snd left + snd right) div 2) (2 * node);
                t1 \<leftarrow> load s1 tri;
                rc \<leftarrow> RightChild t1;
                RecursTessellate PS VD s1 rc right apex
                  ((fst left + fst right) div 2, (snd left + snd right) div 2) (2 * node + 1)
              }
              else Some (snd split)
            }) \<and>
         (\<forall>x. float_le (Finite x) (Finite 1) = (x \<le> 1)) \<and>
         \<not> float_le NaN (Finite 1) \<and> \<not> float_le PlusInf (Finite 1) \<and>
         float_le MinusInf (Finite 1)"
proof (intro conjI allI impI)
  fix cv
  assume "node < 2 ^ VD \<and> variance_array s = Some cv \<and> node < length cv"
  then show "triVariance PS VD s left right node =
              Some (float_mul
                      (float_mul
                         (float_mul (Finite (min (cv ! node) (varianceMaxLimit s))) (float_of_int PS))
                         (float_of_int (max \<bar>fst left - fst right\<bar> \<bar>snd left - snd right\<bar>)))
                      (Finite (camDistLODFactor s)))"
    by (intro triVariance_stored) simp_all
next
  assume "\<not> node < 2 ^ VD"
  then show "triVariance PS VD s left right node = Some (Finite 10)"
    by (rule triVariance_default)
next
  fix v
  assume "triVariance PS VD s left right node = Some v \<and> float_le v (Finite 1)"
  then show "RecursTessellate PS VD s tri left right apex node = Some s"
    using RecursTessellate_stop[OF assms] by blast
next
  fix v
  assume a: "triVariance PS VD s left right node = Some v \<and> \<not> float_le v (Finite 1)"
  show "RecursTessellate PS VD s tri left right apex node = do {
              split \<leftarrow> Split s tri;
              t \<leftarrow> load (snd split) tri;
              if IsBranch t then do {
                lc \<leftarrow> LeftChild t;
                s1 \<leftarrow> RecursTessellate PS VD (snd split) lc apex left
                        ((fst left + fst right) div 2, (snd left + snd right) div 2) (2 * node);
                t1 \<leftarrow> load s1 tri;
                rc \<leftarrow> RightChild t1;
                RecursTessellate PS VD s1 rc right apex
                  ((fst left + fst right) div 2, (snd left + snd right) div 2) (2 * node + 1)
              }
              else Some (snd split)
            }"
    by (rule RecursTessellate_split[OF assms conjunct1[OF a] conjunct2[OF a]])
qed simp_all

theorem RecursTessellate_threshold_witness:
  "triVariance 128 12 flat_patch (0, 128) (128, 0) 1 = Some (Finite 0) \<and>
   RecursTessellate 128 12 flat_patch BaseLeftRef (0, 128) (128, 0) (0, 0) 1 = Some flat_patch \<and>
   triVariance 128 12 flat_patch (0, 128) (128, 0) 4096 = Some (Finite 10) \<and>
   (1::real) < min 3 35 * 128 * 128 * (11184811 / 549755813888) \<and>
   triVariance 128 12 rounding_patch (0, 128) (128, 0) 1 = Some (Finite 1) \<and>
   RecursTessellate 128 12 rounding_patch BaseLeftRef (0, 128) (128, 0) (0, 0) 1
     = Some rounding_patch \<and>
   triVariance 128 12 steep_patch (0, 128) (128, 0) 1 = Some (Finite 2) \<and>
   Split steep_patch BaseLeftRef = Some (True, steep_linked) \<and>
   RecursTessellate 128 12 steep_linked (PoolNode 0) (0, 0) (0, 128) (64, 64) 2
     = Some steep_linked \<and>
   RecursTessellate 128 12 steep_linked (PoolNode 1) (128, 0) (0, 0) (64, 64) 3
     = Some steep_linked \<and>
   RecursTessellate 128 12 steep_patch BaseLeftRef (0, 128) (128, 0) (0, 0) 1
     = Some steep_linked"
proof -
  note root = RecursTessellate_threshold[OF example_spans(1), of _ 12 _ 128 BaseLeftRef "(0, 0)"]
  have "(1::nat) < 2 ^ 12 \<and> variance_array flat_patch = Some (replicate (2 ^ 12) 0) \<and>
        1 < length (replicate (2 ^ 12) (0::real))"
    using example_variance(2) by simp
  with root[of 1 flat_patch] have "triVariance 128 12 flat_patch (0, 128) (128, 0) 1 =
      Some (float_mul
              (float_mul
                 (float_mul (Finite (min (replicate (2 ^ 12) 0 ! 1) (varianceMaxLimit flat_patch)))
                    (float_of_int 128))
                 (float_of_int (max \<bar>fst ((0, 128) :: int2) - fst ((128, 0) :: int2)\<bar>
                                    \<bar>snd ((0, 128) :: int2) - snd ((128, 0) :: int2)\<bar>)))
              (Finite (camDistLODFactor flat_patch)))"
    by blast
  then have a: "triVariance 128 12 flat_patch (0, 128) (128, 0) 1 = Some (Finite 0)"
    unfolding example_factors example_entries
    by (simp add: float_of_int_def float_round_examples float_round_zero)
  have "triVariance 128 12 flat_patch (0, 128) (128, 0) 1 = Some (Finite 0) \<and>
        float_le (Finite 0) (Finite 1)"
    using a by simp
  with root[of 1 flat_patch] have b:
    "RecursTessellate 128 12 flat_patch BaseLeftRef (0, 128) (128, 0) (0, 0) 1 = Some flat_patch"
    by blast
  have "\<not> (4096::nat) < 2 ^ 12" by simp
  with root[of 4096 flat_patch]
  have c: "triVariance 128 12 flat_patch (0, 128) (128, 0) 4096 = Some (Finite 10)"
    by blast
  have d: "(1::real) < min 3 35 * 128 * 128 * (11184811 / 549755813888)"
    by simp
  have "triVariance 128 12 rounding_patch (0, 128) (128, 0) 1 = Some (Finite 1) \<and>
        float_le (Finite 1) (Finite 1)"
    using example_values(3) by simp
  with root[of 1 rounding_patch] have e:
    "RecursTessellate 128 12 rounding_patch BaseLeftRef (0, 128) (128, 0) (0, 0) 1
       = Some rounding_patch"
    by blast
  have "triVariance 128 12 steep_linked (0, 0) (0, 128) 2 = Some (Finite 0) \<and>
        float_le (Finite 0) (Finite 1)"
    using example_values(5) by simp
  with RecursTessellate_threshold[OF example_spans(2), of 2 12 steep_linked 128 "PoolNode 0" "(64, 64)"]
  have f: "RecursTessellate 128 12 steep_linked (PoolNode 0) (0, 0) (0, 128) (64, 64) 2
       = Some steep_linked"
    by blast
  have "triVariance 128 12 steep_linked (128, 0) (0, 0) 3 = Some (Finite 0) \<and>
        float_le (Finite 0) (Finite 1)"
    using example_values(6) by simp
  with RecursTessellate_threshold[OF example_spans(3), of 3 12 steep_linked 128 "PoolNode 1" "(64, 64)"]
  have g: "RecursTessellate 128 12 steep_linked (PoolNode 1) (128, 0) (0, 0) (64, 64) 3
       = Some steep_linked"
    by blast
  have branch: "IsBranch (TriTreeNode_zero\<lparr>LeftChild := Some (PoolNode 0),
                   RightChild := Some (PoolNode 1), BaseNeighbor := Some BaseRightRef\<rparr>)"
    by (simp add: IsBranch_def IsLeaf_def)
  have "triVariance 128 12 steep_patch (0, 128) (128, 0) 1 = Some (Finite 2) \<and>
        \<not> float_le (Finite 2) (Finite 1)"
    using example_values(4) by simp
  with root[of 1 steep_patch]
  have "RecursTessellate 128 12 steep_patch BaseLeftRef (0, 128) (128, 0) (0, 0) 1 = do {
          split \<leftarrow> Split steep_patch BaseLeftRef;
          t \<leftarrow> load (snd split) BaseLeftRef;
          if IsBranch t then do {
            lc \<leftarrow> LeftChild t;
            s1 \<leftarrow> RecursTessellate 128 12 (snd split) lc (0, 0) (0, 128)
                    ((fst ((0, 128) :: int2) + fst ((128, 0) :: int2)) div 2,
                     (snd ((0, 128) :: int2) + snd ((128, 0) :: int2)) div 2) (2 * 1);
            t1 \<leftarrow> load s1 BaseLeftRef;
            rc \<leftarrow> RightChild t1;
            RecursTessellate 128 12 s1 rc (128, 0) (0, 0)
              ((fst ((0, 128) :: int2) + fst ((128, 0) :: int2)) div 2,
               (snd ((0, 128) :: int2) + snd ((128, 0) :: int2)) div 2) (2 * 1 + 1)
          }
          else Some (snd split)
        }"
    by blast
  then have h: "RecursTessellate 128 12 steep_patch BaseLeftRef (0, 128) (128, 0) (0, 0) 1
       = Some steep_linked"
    by (simp add: steep_split steep_roots(3) branch f g del: One_nat_def)
  from a b c d example_values(3) e example_values(4) steep_split f g h show ?thesis
    by simp
qed

theorem RecursTessellate_at_threshold_counterexample:
  "triVariance 128 12 threshold_patch (0, 128) (128, 0) 1 = Some (Finite 1) \<and>
   float_le (Finite 1) (Finite 1) \<and>
   RecursTessellate 128 12 threshold_patch BaseLeftRef (0, 128) (128, 0) (0, 0) 1
     = Some threshold_patch \<and>
   load threshold_patch BaseLeftRef = Some (TriTreeNode_zero\<lparr>BaseNeighbor := Some BaseRightRef\<rparr>) \<and>
   IsLeaf (TriTreeNode_zero\<lparr>BaseNeighbor := Some BaseRightRef\<rparr>) \<and>
   curTriPool threshold_patch =
     Some \<lparr>pool = [TriTreeNode_zero, TriTreeNode_zero], nextTriNodeIdx = 0\<rparr> \<and>
   \<not> OutOfNodes \<lparr>pool = [TriTreeNode_zero, TriTreeNode_zero], nextTriNodeIdx = 0\<rparr>"
proof -
  note a = example_values(2)
  have b: "RecursTessellate 128 12 threshold_patch BaseLeftRef (0, 128) (128, 0) (0, 0) 1
     = Some threshold_patch"
    by (rule RecursTessellate_stop[OF example_spans(1) a]) simp
  have c: "load threshold_patch BaseLeftRef = Some (TriTreeNode_zero\<lparr>BaseNeighbor := Some BaseRightRef\<rparr>)"
    "curTriPool threshold_patch =
       Some \<lparr>pool = [TriTreeNode_zero, TriTreeNode_zero], nextTriNodeIdx = 0\<rparr>"
    by (simp_all add: load_def threshold_patch_def diamond_before_def fresh_patch_def Patch_Reset_def)
  have d: "IsLeaf (TriTreeNode_zero\<lparr>BaseNeighbor := Some BaseRightRef\<rparr>)"
    "\<not> OutOfNodes \<lparr>pool = [TriTreeNode_zero, TriTreeNode_zero], nextTriNodeIdx = 0\<rparr>"
    by (simp_all add: IsLeaf_def TriTreeNode_zero_def OutOfNodes_def)
  from a b c d show ?thesis by simp
qed

subsection \<open>Properties of the index and border extraction\<close>

lemma RecursGenIndices_leaf:
  "load s tri = Some t \<Longrightarrow> IsLeaf t \<Longrightarrow>
   RecursGenIndices PS s tri left right apex =
     Some (s\<lparr>indices := indices s @
              [vertex_index PS apex, vertex_index PS left, vertex_index PS right]\<rparr>)"
  by (subst RecursGenIndices.simps) simp

text \<open>
  Claim C9. A leaf contributes the indices of its apex, its left and its right corner,
  in this order; on a tile whose two roots are leaves \<^verbatim>\<open>GenerateIndices\<close> returns with
  exactly these six indices, two triangles.
\<close>

theorem GenerateIndices_unsplit:
  "(\<forall>tri t left right apex. load s tri = Some t \<and> IsLeaf t \<longrightarrow>
      RecursGenIndices PS s tri left right apex =
        Some (s\<lparr>indices := indices s @
                 [vertex_index PS apex, vertex_index PS left, vertex_index PS right]\<rparr>)) \<and>
   (IsLeaf (baseLeft s) \<and> IsLeaf (baseRight s) \<longrightarrow>
      GenerateIndices PS s =
        Some (s\<lparr>indices := [vertex_index PS (0, 0), vertex_index PS (0, PS), vertex_index PS (PS, 0),
                            vertex_index PS (PS, PS), vertex_index PS (PS, 0), vertex_index PS (0, PS)]\<rparr>) \<and>
      map_option (\<lambda>s'. length (indices s')) (GenerateIndices PS s) = Some 6 \<and>
      map_option indices (GenerateIndices PS s) =
        Some [0, PS * (PS + 1), PS, PS + PS * (PS + 1), PS, PS * (PS + 1)])"
proof (intro conjI allI impI)
  fix tri t left right apex
  assume "load s tri = Some t \<and> IsLeaf t"
  then show "RecursGenIndices PS s tri left right apex =
        Some (s\<lparr>indices := indices s @
                 [vertex_index PS apex, vertex_index PS left, vertex_index PS right]\<rparr>)"
    by (simp add: RecursGenIndices_leaf)
next
  assume a: "IsLeaf (baseLeft s) \<and> IsLeaf (baseRight s)"
  have l: "load (s\<lparr>indices := []\<rparr>) BaseLeftRef = Some (baseLeft s)"
    by (simp add: load_def)
  have r: "load (s\<lparr>indices := [vertex_index PS (0, 0), vertex_index PS (0, PS), vertex_index PS (PS, 0)]\<rparr>)
             BaseRightRef = Some (baseRight s)"
    by (simp add: load_def)
  show g: "GenerateIndices PS s =
        Some (s\<lparr>indices := [vertex_index PS (0, 0), vertex_index PS (0, PS), vertex_index PS (PS, 0),
                            vertex_index PS (PS, PS), vertex_index PS (PS, 0), vertex_index PS (0, PS)]\<rparr>)"
    using a by (simp add: GenerateIndices_def RecursGenIndices_leaf[OF l] RecursGenIndices_leaf[OF r])
  show "map_option (\<lambda>s'. length (indices s')) (GenerateIndices PS s) = Some 6"
    by (simp add: g)
  show "map_option indices (GenerateIndices PS s) =
        Some [0, PS * (PS + 1), PS, PS + PS * (PS + 1), PS, PS * (PS + 1)]"
    by (simp add: g vertex_index_def)
qed

theorem GenerateIndices_unsplit_witness:
  "IsLeaf (baseLeft diamond_before) \<and> IsLeaf (baseRight diamond_before) \<and>
   map_option indices (GenerateIndices 128 diamond_before) =
     Some [0, 16512, 128, 16640, 128, 16512]"
proof -
  have l: "IsLeaf (baseLeft diamond_before)" "IsLeaf (baseRight diamond_before)"
    by (simp_all add: IsLeaf_def diamond_before_def fresh_patch_def Patch_Reset_def
          TriTreeNode_zero_def)
  from GenerateIndices_unsplit[of diamond_before 128] l show ?thesis
    by (simp add: vertex_index_def)
qed

lemma RecursGenBorderVertices_flag:
  assumes "RecursGenBorderVertices PS s tri left rght apex depth = Some s'"
  shows "isTesselated s' = isTesselated s"
proof (rule RecursGenBorderVertices.raw_induct
    [where P = "\<lambda>PS s tri left rght apex depth s'. isTesselated s' = isTesselated s", OF _ assms],
    goal_cases)
  case (1 f PS s tri left rght apex depth s')
  from 1(2) obtain t where t: "load s tri = Some t"
    and body: "(if IsLeaf t then do {
       v1 \<leftarrow> vertex_at PS s apex;
       v2 \<leftarrow> vertex_at PS s left;
       v3 \<leftarrow> vertex_at PS s rght;
       if even (fst depth) then Some (s\<lparr>borderVertices := borderVertices s @ skirt v2 v3\<rparr>)
       else if snd depth \<noteq> 0 then Some (s\<lparr>borderVertices := borderVertices s @ skirt v1 v2\<rparr>)
       else Some (s\<lparr>borderVertices := borderVertices s @ skirt v3 v1\<rparr>)
     }
     else if even (fst depth) then do {
       lc \<leftarrow> LeftChild t;
       s1 \<leftarrow> f PS s lc apex left
               ((fst left + fst rght) div 2, (snd left + snd rght) div 2)
               (fst depth + 1, if snd depth = 0 then 1 else 0);
       t1 \<leftarrow> load s1 tri;
       rc \<leftarrow> RightChild t1;
       f PS s1 rc rght apex
         ((fst left + fst rght) div 2, (snd left + snd rght) div 2)
         (fst depth + 1, snd depth)
     }
     else if snd depth \<noteq> 0 then do {
       lc \<leftarrow> LeftChild t;
       f PS s lc apex left
         ((fst left + fst rght) div 2, (snd left + snd rght) div 2) (fst depth + 1, 1)
     }
     else do {
       rc \<leftarrow> RightChild t;
       f PS s rc rght apex
         ((fst left + fst rght) div 2, (snd left + snd rght) div 2) (fst depth + 1, 1)
     }) = Some s'"
    unfolding bind_eq_Some_conv by blast
  show ?case
  proof (cases "IsLeaf t")
    case True
    from body[unfolded if_P[OF True] bind_eq_Some_conv] obtain v1 v2 v3 where
      r: "(if even (fst depth) then Some (s\<lparr>borderVertices := borderVertices s @ skirt v2 v3\<rparr>)
       else if snd depth \<noteq> 0 then Some (s\<lparr>borderVertices := borderVertices s @ skirt v1 v2\<rparr>)
       else Some (s\<lparr>borderVertices := borderVertices s @ skirt v3 v1\<rparr>)) = Some s'"
      by blast
    then have "s' = s\<lparr>borderVertices := borderVertices s @ skirt v2 v3\<rparr> \<or>
       s' = s\<lparr>borderVertices := borderVertices s @ skirt v1 v2\<rparr> \<or>
       s' = s\<lparr>borderVertices := borderVertices s @ skirt v3 v1\<rparr>"
      by (metis option.inject)
    then show ?thesis by auto
  next
    case leaf: False
    show ?thesis
    proof (cases "even (fst depth)")
      case True
      from body[unfolded if_not_P[OF leaf] if_P[OF True] bind_eq_Some_conv] obtain lc s1 rc where
        a: "f PS s lc apex left ((fst left + fst rght) div 2, (snd left + snd rght) div 2)
              (fst depth + 1, if snd depth = 0 then 1 else 0) = Some s1"
        and b: "f PS s1 rc rght apex ((fst left + fst rght) div 2, (snd left + snd rght) div 2)
              (fst depth + 1, snd depth) = Some s'"
        by blast
      from 1(1)[OF a] 1(1)[OF b] show ?thesis by simp
    next
      case False
      from body[unfolded if_not_P[OF leaf] if_not_P[OF False] bind_eq_Some_conv] obtain c where
        "f PS s c apex left ((fst left + fst rght) div 2, (snd left + snd rght) div 2)
              (fst depth + 1, 1) = Some s' \<or>
         f PS s c rght apex ((fst left + fst rght) div 2, (snd left + snd rght) div 2)
              (fst depth + 1, 1) = Some s'"
        by (cases "snd depth \<noteq> 0") (auto simp: bind_eq_Some_conv)
      with 1(1) show ?thesis by blast
    qed
  qed
qed


lemma GenerateBorderVertices_skip:
  "\<not> isTesselated s \<Longrightarrow> GenerateBorderVertices PS s = Some s"
  by (simp add: GenerateBorderVertices_def)

lemma GenerateBorderVertices_clears:
  assumes "GenerateBorderVertices PS s = Some s'" and "isTesselated s"
  shows "\<not> isTesselated s'"
proof -
  from assms obtain s2 s3 s4 where
    s2: "(if LeftNeighbor (baseLeft (s\<lparr>isTesselated := False, borderVertices := []\<rparr>)) = None
          then RecursGenBorderVertices PS (s\<lparr>isTesselated := False, borderVertices := []\<rparr>)
                 BaseLeftRef (0, PS) (PS, 0) (0, 0) (1, 1)
          else Some (s\<lparr>isTesselated := False, borderVertices := []\<rparr>)) = Some s2"
    and s3: "(if RightNeighbor (baseLeft s2) = None
          then RecursGenBorderVertices PS s2 BaseLeftRef (0, PS) (PS, 0) (0, 0) (1, 0)
          else Some s2) = Some s3"
    and s4: "(if RightNeighbor (baseRight s3) = None
          then RecursGenBorderVertices PS s3 BaseRightRef (PS, 0) (0, PS) (PS, PS) (1, 0)
          else Some s3) = Some s4"
    and s5: "(if LeftNeighbor (baseRight s4) = None
          then RecursGenBorderVertices PS s4 BaseRightRef (PS, 0) (0, PS) (PS, PS) (1, 1)
          else Some s4) = Some s'"
    by (auto simp: GenerateBorderVertices_def split: bind_splits)
  have "\<not> isTesselated s2"
    using s2 RecursGenBorderVertices_flag by (fastforce split: if_splits)
  then have "\<not> isTesselated s3"
    using s3 RecursGenBorderVertices_flag by (fastforce split: if_splits)
  then have "\<not> isTesselated s4"
    using s4 RecursGenBorderVertices_flag by (fastforce split: if_splits)
  then show ?thesis
    using s5 RecursGenBorderVertices_flag by (fastforce split: if_splits)
qed


lemma example_vertices:
  "vertex_at 128 (diamond_before\<lparr>isTesselated := False, borderVertices := bs\<rparr>) (0, 0) = Some (0, 0, 0)"
  "vertex_at 128 (diamond_before\<lparr>isTesselated := False, borderVertices := bs\<rparr>) (0, 128) = Some (0, 0, 0)"
  "vertex_at 128 (diamond_before\<lparr>isTesselated := False, borderVertices := bs\<rparr>) (128, 0) = Some (0, 0, 0)"
  "vertex_at 128 (diamond_before\<lparr>isTesselated := False, borderVertices := bs\<rparr>) (128, 128) = Some (0, 0, 0)"
  by (simp_all add: vertex_at_def vertex_index_def diamond_before_def fresh_patch_def
        Patch_Reset_def Patch_ctor_def)

lemma example_border_leaf:
  "load (diamond_before\<lparr>isTesselated := False, borderVertices := bs\<rparr>) BaseLeftRef
     = Some (TriTreeNode_zero\<lparr>BaseNeighbor := Some BaseRightRef\<rparr>)"
  "load (diamond_before\<lparr>isTesselated := False, borderVertices := bs\<rparr>) BaseRightRef
     = Some (TriTreeNode_zero\<lparr>BaseNeighbor := Some BaseLeftRef\<rparr>)"
  by (simp_all add: load_def diamond_before_def fresh_patch_def Patch_Reset_def)

lemma example_border_step:
  "RecursGenBorderVertices 128 (diamond_before\<lparr>isTesselated := False, borderVertices := bs\<rparr>)
     BaseLeftRef (0, 128) (128, 0) (0, 0) (1, d)
   = Some (diamond_before\<lparr>isTesselated := False, borderVertices := bs @ skirt (0, 0, 0) (0, 0, 0)\<rparr>)"
  "RecursGenBorderVertices 128 (diamond_before\<lparr>isTesselated := False, borderVertices := bs\<rparr>)
     BaseRightRef (128, 0) (0, 128) (128, 128) (1, d)
   = Some (diamond_before\<lparr>isTesselated := False, borderVertices := bs @ skirt (0, 0, 0) (0, 0, 0)\<rparr>)"
   apply (subst RecursGenBorderVertices.simps)
   apply (simp only: example_border_leaf)
   apply (simp add: example_vertices IsLeaf_def TriTreeNode_zero_def)
  apply (subst RecursGenBorderVertices.simps)
  apply (simp only: example_border_leaf)
  apply (simp add: example_vertices IsLeaf_def TriTreeNode_zero_def)
  done

lemma example_border:
  "GenerateBorderVertices 128 (mark_tessellated diamond_before) = Some border_done"
proof -
  have n: "LeftNeighbor (baseLeft (diamond_before\<lparr>isTesselated := False, borderVertices := bs\<rparr>)) = None"
    "RightNeighbor (baseLeft (diamond_before\<lparr>isTesselated := False, borderVertices := bs\<rparr>)) = None"
    "LeftNeighbor (baseRight (diamond_before\<lparr>isTesselated := False, borderVertices := bs\<rparr>)) = None"
    "RightNeighbor (baseRight (diamond_before\<lparr>isTesselated := False, borderVertices := bs\<rparr>)) = None"
    for bs
    by (simp_all add: diamond_before_def fresh_patch_def Patch_Reset_def TriTreeNode_zero_def)
  have t: "(\<not> isTesselated (mark_tessellated diamond_before)) = False"
    by (simp add: mark_tessellated_def)
  have s: "mark_tessellated diamond_before\<lparr>isTesselated := False, borderVertices := []\<rparr>
           = diamond_before\<lparr>isTesselated := False, borderVertices := []\<rparr>"
    by (simp add: mark_tessellated_def)
  show ?thesis
    unfolding GenerateBorderVertices_def t s
    by (simp only: if_False if_True n example_border_step Option.bind.simps append_Nil
          append_assoc border_done_def simp_thms)
qed

text \<open>
  Claim C10. With the flag unset \<^verbatim>\<open>GenerateBorderVertices\<close> returns the state as it is,
  the border vertex list included. A call that returns leaves the flag unset, so the
  next call, with no \<^verbatim>\<open>Tessellate\<close> in between, changes nothing.
\<close>

theorem GenerateBorderVertices_consumes_flag:
  "(\<not> isTesselated s \<longrightarrow>
      GenerateBorderVertices PS s = Some s \<and>
      map_option borderVertices (GenerateBorderVertices PS s) = Some (borderVertices s)) \<and>
   (\<forall>s'. GenerateBorderVertices PS s = Some s' \<longrightarrow>
      \<not> isTesselated s' \<and>
      GenerateBorderVertices PS s' = Some s' \<and>
      map_option borderVertices (GenerateBorderVertices PS s') = Some (borderVertices s'))"
proof (intro conjI allI impI)
  assume "\<not> isTesselated s"
  then show "GenerateBorderVertices PS s = Some s"
    "map_option borderVertices (GenerateBorderVertices PS s) = Some (borderVertices s)"
    by (simp_all add: GenerateBorderVertices_skip)
next
  fix s'
  assume a: "GenerateBorderVertices PS s = Some s'"
  show c: "\<not> isTesselated s'"
  proof (cases "isTesselated s")
    case True
    with a show ?thesis by (rule GenerateBorderVertices_clears)
  next
    case False
    with a show ?thesis by (simp add: GenerateBorderVertices_skip)
  qed
  then show "GenerateBorderVertices PS s' = Some s'"
    "map_option borderVertices (GenerateBorderVertices PS s') = Some (borderVertices s')"
    by (simp_all add: GenerateBorderVertices_skip)
qed


theorem GenerateBorderVertices_consumes_flag_witness:
  "\<not> isTesselated (Patch_ctor 128 12) \<and>
   GenerateBorderVertices 128 (Patch_ctor 128 12) = Some (Patch_ctor 128 12) \<and>
   isTesselated (mark_tessellated diamond_before) \<and>
   GenerateBorderVertices 128 (mark_tessellated diamond_before) = Some border_done \<and>
   \<not> isTesselated border_done \<and>
   GenerateBorderVertices 128 border_done = Some border_done"
proof -
  have a: "\<not> isTesselated (Patch_ctor 128 12)"
    by (simp add: Patch_ctor_def)
  have b: "isTesselated (mark_tessellated diamond_before)"
    by (simp add: mark_tessellated_def)
  from GenerateBorderVertices_consumes_flag[of "Patch_ctor 128 12" 128]
       GenerateBorderVertices_consumes_flag[of "mark_tessellated diamond_before" 128]
       a b example_border
  show ?thesis by simp
qed

subsection \<open>Properties of the pools of all workers\<close>

lemma InitPools_success:
  "0 < numThreads \<Longrightarrow> alloc_ok numThreads (thread_pool_size numThreads newPoolSize) \<Longrightarrow>
   InitPools alloc_ok numThreads g shadowPass newPoolSize =
     Some (g\<lparr>CUR_POOL_SIZE := newPoolSize,
             pools := (pools g)(shadowPass :=
               replicate numThreads
                 (CTriNodePool_ctor (thread_pool_size numThreads newPoolSize)))\<rparr>)"
  by (subst InitPools.simps) simp

lemma thread_pool_size_even:
  "thread_pool_size numThreads newPoolSize < 2 ^ 64 \<and> even (thread_pool_size numThreads newPoolSize)"
proof -
  have "even ((n + n mod 2) mod 2 ^ 64)" for n :: nat
  proof -
    have "even (n + n mod 2)" by presburger
    moreover have "(2::nat) dvd 2 ^ 64" by simp
    ultimately show ?thesis by (simp add: dvd_mod_iff)
  qed
  then show ?thesis
    by (simp add: thread_pool_size_def size_t_def Let_def)
qed

lemma InitPools_retry:
  assumes "0 < numThreads"
    and "\<forall>i<k. \<not> alloc_ok numThreads (thread_pool_size numThreads ((reduced ^^ i) n))"
    and "alloc_ok numThreads (thread_pool_size numThreads ((reduced ^^ k) n))"
  shows "InitPools alloc_ok numThreads g shadowPass n =
     Some (g\<lparr>CUR_POOL_SIZE := (reduced ^^ k) n,
             MAX_POOL_SIZE := (if k = 0 then MAX_POOL_SIZE g else (reduced ^^ k) n),
             pools := (pools g)(shadowPass :=
               replicate numThreads
                 (CTriNodePool_ctor (thread_pool_size numThreads ((reduced ^^ k) n))))\<rparr>)"
  using assms(2,3)
proof (induction k arbitrary: n g)
  case 0
  then show ?case
    using assms(1) by (subst InitPools.simps) simp
next
  case (Suc k)
  from Suc.prems(1) have fail: "\<not> alloc_ok numThreads (thread_pool_size numThreads n)"
    by (metis funpow_0 zero_less_Suc)
  have sw: "(reduced ^^ i) (reduced n) = (reduced ^^ Suc i) n" for i
    by (simp add: funpow_swap1)
  have a: "\<forall>i<k. \<not> alloc_ok numThreads (thread_pool_size numThreads ((reduced ^^ i) (reduced n)))"
    using Suc.prems(1) unfolding sw by auto
  have b: "alloc_ok numThreads (thread_pool_size numThreads ((reduced ^^ k) (reduced n)))"
    using Suc.prems(2) unfolding sw .
  define g1 where "g1 = g\<lparr>CUR_POOL_SIZE := n, MAX_POOL_SIZE := reduced n,
             pools := (pools g)(shadowPass := [])\<rparr>"
  have "InitPools alloc_ok numThreads g shadowPass n =
        InitPools alloc_ok numThreads g1 shadowPass (reduced n)"
    using assms(1) fail by (subst InitPools.simps) (simp add: reduced_def g1_def)
  also have "\<dots> = Some (g1\<lparr>CUR_POOL_SIZE := (reduced ^^ k) (reduced n),
             MAX_POOL_SIZE := (if k = 0 then MAX_POOL_SIZE g1 else (reduced ^^ k) (reduced n)),
             pools := (pools g1)(shadowPass :=
               replicate numThreads
                 (CTriNodePool_ctor (thread_pool_size numThreads ((reduced ^^ k) (reduced n)))))\<rparr>)"
    by (rule Suc.IH[OF a b])
  also have "\<dots> = Some (g\<lparr>CUR_POOL_SIZE := (reduced ^^ Suc k) n,
             MAX_POOL_SIZE := (if Suc k = 0 then MAX_POOL_SIZE g else (reduced ^^ Suc k) n),
             pools := (pools g)(shadowPass :=
               replicate numThreads
                 (CTriNodePool_ctor (thread_pool_size numThreads ((reduced ^^ Suc k) n))))\<rparr>)"
    unfolding sw by (cases "k = 0") (simp_all add: g1_def)
  finally show ?case .
qed

lemma InitPools_returns:
  assumes "InitPools alloc_ok numThreads g shadowPass n = Some g'"
  shows "0 < numThreads \<and> (\<exists>k. alloc_ok numThreads (thread_pool_size numThreads ((reduced ^^ k) n)))"
proof (rule InitPools.raw_induct[where P = "\<lambda>alloc_ok numThreads g shadowPass n g'.
    0 < numThreads \<and> (\<exists>k. alloc_ok numThreads (thread_pool_size numThreads ((reduced ^^ k) n)))",
    OF _ assms], goal_cases)
  case (1 f alloc_ok numThreads g shadowPass n g')
  show ?case
  proof (cases "numThreads = 0")
    case True
    with 1(2) show ?thesis by simp
  next
    case False
    show ?thesis
    proof (cases "alloc_ok numThreads (thread_pool_size numThreads n)")
      case True
      then have "alloc_ok numThreads (thread_pool_size numThreads ((reduced ^^ 0) n))" by simp
      with False show ?thesis by blast
    next
      case no: False
      with False 1(2) have "f alloc_ok numThreads
          (g\<lparr>CUR_POOL_SIZE := n, MAX_POOL_SIZE := n - n div 4,
             pools := (pools g)(shadowPass := [])\<rparr>) shadowPass (n - n div 4) = Some g'"
        by simp
      from 1(1)[OF this] obtain k where
        "alloc_ok numThreads (thread_pool_size numThreads ((reduced ^^ k) (n - n div 4)))"
        by blast
      then have "alloc_ok numThreads (thread_pool_size numThreads ((reduced ^^ Suc k) n))"
        by (simp add: funpow_swap1 reduced_def)
      with False show ?thesis by blast
    qed
  qed
qed

lemma InitPools_never:
  "numThreads = 0 \<or> (\<forall>k. \<not> alloc_ok numThreads (thread_pool_size numThreads ((reduced ^^ k) n))) \<Longrightarrow>
   InitPools alloc_ok numThreads g shadowPass n = None"
  using InitPools_returns[of alloc_ok numThreads g shadowPass n]
  by (cases "InitPools alloc_ok numThreads g shadowPass n") auto

lemma ResetAll_rebuild:
  "list_ex OutOfNodes (pools g shadowPass) \<Longrightarrow> CUR_POOL_SIZE g < MAX_POOL_SIZE g \<Longrightarrow>
   ResetAll alloc_ok numThreads g shadowPass =
     InitPools alloc_ok numThreads
       (g\<lparr>pools := (pools g)(shadowPass := map Reset (pools g shadowPass))\<rparr>) shadowPass
       (min (size_t (CUR_POOL_SIZE g * 2)) (MAX_POOL_SIZE g))"
  by (simp add: ResetAll_def Let_def)

lemma example_globals_sizes:
  "list_ex OutOfNodes (pools example_globals False)"
  "\<not> list_ex OutOfNodes (pools example_globals True)"
  "CUR_POOL_SIZE example_globals = 8"
  "MAX_POOL_SIZE example_globals = 64"
  "min (size_t (CUR_POOL_SIZE example_globals * 2)) (MAX_POOL_SIZE example_globals) = 16"
  by (simp_all add: example_globals_def OutOfNodes_def CTriNodePool_ctor_def size_t_def)

lemma example_shares:
  "thread_pool_size 2 16 = 8" "thread_pool_size 2 12 = 6" "reduced 16 = 12"
  by (simp_all add: thread_pool_size_def size_t_def Let_def reduced_def)

lemma replicate_two: "replicate 2 x = [x, x]"
  by (simp add: numeral_2_eq_2)

text \<open>
  Claim C7, as the code has it. \<^verbatim>\<open>ResetAll\<close> resets every pool of the pass. If none of
  them was out of nodes, nothing is rebuilt: the sizes of the pools and both global sizes
  stay as they are, and every cursor is 0; the same holds at the cap. If one was out of
  nodes and \<^verbatim>\<open>CUR_POOL_SIZE\<close> is below \<^verbatim>\<open>MAX_POOL_SIZE\<close>, the pools are rebuilt for the
  size \<open>n = min (2 * CUR_POOL_SIZE) MAX_POOL_SIZE\<close>, the doubling taken in \<^verbatim>\<open>size_t\<close>.
  When the allocation for \<open>n\<close> succeeds, \<open>n\<close> is the new \<^verbatim>\<open>CUR_POOL_SIZE\<close> and the pass has
  one fresh pool per worker, of that size's per-worker share. When it fails, the size is
  reduced by a quarter, again and again, until the allocation succeeds: the first size
  that succeeds becomes both \<^verbatim>\<open>CUR_POOL_SIZE\<close> and \<^verbatim>\<open>MAX_POOL_SIZE\<close>, so the rebuilt
  pools are smaller than \<open>n\<close> and the cap is lowered. When no size succeeds, or there is no
  worker, \<^verbatim>\<open>ResetAll\<close> does not return.
\<close>

theorem ResetAll_contract:
  "(\<not> list_ex OutOfNodes (pools g shadowPass) \<longrightarrow>
      ResetAll alloc_ok numThreads g shadowPass =
        Some (g\<lparr>pools := (pools g)(shadowPass := map Reset (pools g shadowPass))\<rparr>) \<and>
      map (\<lambda>p. length (pool p)) (map Reset (pools g shadowPass)) =
        map (\<lambda>p. length (pool p)) (pools g shadowPass) \<and>
      list_all (\<lambda>p. nextTriNodeIdx p = 0) (map Reset (pools g shadowPass))) \<and>
   (list_ex OutOfNodes (pools g shadowPass) \<and> MAX_POOL_SIZE g \<le> CUR_POOL_SIZE g \<longrightarrow>
      ResetAll alloc_ok numThreads g shadowPass =
        Some (g\<lparr>pools := (pools g)(shadowPass := map Reset (pools g shadowPass))\<rparr>)) \<and>
   (list_ex OutOfNodes (pools g shadowPass) \<and> CUR_POOL_SIZE g < MAX_POOL_SIZE g \<and>
    0 < numThreads \<and>
    alloc_ok numThreads
      (thread_pool_size numThreads (min (size_t (CUR_POOL_SIZE g * 2)) (MAX_POOL_SIZE g))) \<longrightarrow>
      ResetAll alloc_ok numThreads g shadowPass =
        Some (g\<lparr>CUR_POOL_SIZE := min (size_t (CUR_POOL_SIZE g * 2)) (MAX_POOL_SIZE g),
                pools := (pools g)(shadowPass :=
                  replicate numThreads
                    (CTriNodePool_ctor
                       (thread_pool_size numThreads
                          (min (size_t (CUR_POOL_SIZE g * 2)) (MAX_POOL_SIZE g)))))\<rparr>)) \<and>
   (list_ex OutOfNodes (pools g shadowPass) \<and> CUR_POOL_SIZE g < MAX_POOL_SIZE g \<and>
    0 < numThreads \<and>
    (\<forall>i\<le>k. \<not> alloc_ok numThreads
       (thread_pool_size numThreads
          ((reduced ^^ i) (min (size_t (CUR_POOL_SIZE g * 2)) (MAX_POOL_SIZE g))))) \<and>
    alloc_ok numThreads
      (thread_pool_size numThreads
         ((reduced ^^ Suc k) (min (size_t (CUR_POOL_SIZE g * 2)) (MAX_POOL_SIZE g)))) \<longrightarrow>
      ResetAll alloc_ok numThreads g shadowPass =
        Some (g\<lparr>CUR_POOL_SIZE :=
                  (reduced ^^ Suc k) (min (size_t (CUR_POOL_SIZE g * 2)) (MAX_POOL_SIZE g)),
                MAX_POOL_SIZE :=
                  (reduced ^^ Suc k) (min (size_t (CUR_POOL_SIZE g * 2)) (MAX_POOL_SIZE g)),
                pools := (pools g)(shadowPass :=
                  replicate numThreads
                    (CTriNodePool_ctor
                       (thread_pool_size numThreads
                          ((reduced ^^ Suc k)
                             (min (size_t (CUR_POOL_SIZE g * 2)) (MAX_POOL_SIZE g))))))\<rparr>)) \<and>
   (list_ex OutOfNodes (pools g shadowPass) \<and> CUR_POOL_SIZE g < MAX_POOL_SIZE g \<and>
    (numThreads = 0 \<or>
     (\<forall>i. \<not> alloc_ok numThreads
        (thread_pool_size numThreads
           ((reduced ^^ i) (min (size_t (CUR_POOL_SIZE g * 2)) (MAX_POOL_SIZE g)))))) \<longrightarrow>
      ResetAll alloc_ok numThreads g shadowPass = None) \<and>
   (CUR_POOL_SIZE g < 2 ^ 63 \<longrightarrow>
      min (size_t (CUR_POOL_SIZE g * 2)) (MAX_POOL_SIZE g) =
        min (2 * CUR_POOL_SIZE g) (MAX_POOL_SIZE g))"
proof (intro conjI impI)
  assume "\<not> list_ex OutOfNodes (pools g shadowPass)"
  then show "ResetAll alloc_ok numThreads g shadowPass =
        Some (g\<lparr>pools := (pools g)(shadowPass := map Reset (pools g shadowPass))\<rparr>)"
    by (simp add: ResetAll_def Let_def)
next
  show "map (\<lambda>p. length (pool p)) (map Reset (pools g shadowPass)) =
        map (\<lambda>p. length (pool p)) (pools g shadowPass)"
    by (simp add: Reset_length comp_def)
next
  show "list_all (\<lambda>p. nextTriNodeIdx p = 0) (map Reset (pools g shadowPass))"
    by (simp add: list_all_iff Reset_cursor)
next
  assume "list_ex OutOfNodes (pools g shadowPass) \<and> MAX_POOL_SIZE g \<le> CUR_POOL_SIZE g"
  then show "ResetAll alloc_ok numThreads g shadowPass =
        Some (g\<lparr>pools := (pools g)(shadowPass := map Reset (pools g shadowPass))\<rparr>)"
    by (simp add: ResetAll_def Let_def)
next
  define n where "n = min (size_t (CUR_POOL_SIZE g * 2)) (MAX_POOL_SIZE g)"
  assume a: "list_ex OutOfNodes (pools g shadowPass) \<and> CUR_POOL_SIZE g < MAX_POOL_SIZE g \<and>
    0 < numThreads \<and>
    alloc_ok numThreads
      (thread_pool_size numThreads (min (size_t (CUR_POOL_SIZE g * 2)) (MAX_POOL_SIZE g)))"
  then have ok: "0 < numThreads" "alloc_ok numThreads (thread_pool_size numThreads n)"
    by (simp_all add: n_def)
  from a have "ResetAll alloc_ok numThreads g shadowPass =
     InitPools alloc_ok numThreads
       (g\<lparr>pools := (pools g)(shadowPass := map Reset (pools g shadowPass))\<rparr>) shadowPass n"
    unfolding n_def by (intro ResetAll_rebuild) simp_all
  also have "\<dots> = Some (g\<lparr>CUR_POOL_SIZE := n,
                pools := (pools g)(shadowPass :=
                  replicate numThreads (CTriNodePool_ctor (thread_pool_size numThreads n)))\<rparr>)"
    by (simp add: InitPools_success[where alloc_ok = alloc_ok, OF ok])
  finally show "ResetAll alloc_ok numThreads g shadowPass =
        Some (g\<lparr>CUR_POOL_SIZE := min (size_t (CUR_POOL_SIZE g * 2)) (MAX_POOL_SIZE g),
                pools := (pools g)(shadowPass :=
                  replicate numThreads
                    (CTriNodePool_ctor
                       (thread_pool_size numThreads
                          (min (size_t (CUR_POOL_SIZE g * 2)) (MAX_POOL_SIZE g)))))\<rparr>)"
    unfolding n_def .
next
  define n where "n = min (size_t (CUR_POOL_SIZE g * 2)) (MAX_POOL_SIZE g)"
  assume a: "list_ex OutOfNodes (pools g shadowPass) \<and> CUR_POOL_SIZE g < MAX_POOL_SIZE g \<and>
    0 < numThreads \<and>
    (\<forall>i\<le>k. \<not> alloc_ok numThreads
       (thread_pool_size numThreads
          ((reduced ^^ i) (min (size_t (CUR_POOL_SIZE g * 2)) (MAX_POOL_SIZE g))))) \<and>
    alloc_ok numThreads
      (thread_pool_size numThreads
         ((reduced ^^ Suc k) (min (size_t (CUR_POOL_SIZE g * 2)) (MAX_POOL_SIZE g))))"
  then have nt: "0 < numThreads"
    and no: "\<forall>i<Suc k. \<not> alloc_ok numThreads (thread_pool_size numThreads ((reduced ^^ i) n))"
    and ok: "alloc_ok numThreads (thread_pool_size numThreads ((reduced ^^ Suc k) n))"
    unfolding n_def by (simp_all add: less_Suc_eq_le)
  from a have "ResetAll alloc_ok numThreads g shadowPass =
     InitPools alloc_ok numThreads
       (g\<lparr>pools := (pools g)(shadowPass := map Reset (pools g shadowPass))\<rparr>) shadowPass n"
    unfolding n_def by (intro ResetAll_rebuild) simp_all
  also have "\<dots> = Some (g\<lparr>CUR_POOL_SIZE := (reduced ^^ Suc k) n,
                MAX_POOL_SIZE := (reduced ^^ Suc k) n,
                pools := (pools g)(shadowPass :=
                  replicate numThreads
                    (CTriNodePool_ctor (thread_pool_size numThreads ((reduced ^^ Suc k) n))))\<rparr>)"
    unfolding InitPools_retry[where alloc_ok = alloc_ok, OF nt no ok] by simp
  finally show "ResetAll alloc_ok numThreads g shadowPass =
        Some (g\<lparr>CUR_POOL_SIZE :=
                  (reduced ^^ Suc k) (min (size_t (CUR_POOL_SIZE g * 2)) (MAX_POOL_SIZE g)),
                MAX_POOL_SIZE :=
                  (reduced ^^ Suc k) (min (size_t (CUR_POOL_SIZE g * 2)) (MAX_POOL_SIZE g)),
                pools := (pools g)(shadowPass :=
                  replicate numThreads
                    (CTriNodePool_ctor
                       (thread_pool_size numThreads
                          ((reduced ^^ Suc k)
                             (min (size_t (CUR_POOL_SIZE g * 2)) (MAX_POOL_SIZE g))))))\<rparr>)"
    unfolding n_def .
next
  assume a: "list_ex OutOfNodes (pools g shadowPass) \<and> CUR_POOL_SIZE g < MAX_POOL_SIZE g \<and>
    (numThreads = 0 \<or>
     (\<forall>i. \<not> alloc_ok numThreads
        (thread_pool_size numThreads
           ((reduced ^^ i) (min (size_t (CUR_POOL_SIZE g * 2)) (MAX_POOL_SIZE g))))))"
  then have "ResetAll alloc_ok numThreads g shadowPass =
     InitPools alloc_ok numThreads
       (g\<lparr>pools := (pools g)(shadowPass := map Reset (pools g shadowPass))\<rparr>) shadowPass
       (min (size_t (CUR_POOL_SIZE g * 2)) (MAX_POOL_SIZE g))"
    by (intro ResetAll_rebuild) simp_all
  also have "\<dots> = None"
    using a by (intro InitPools_never) simp
  finally show "ResetAll alloc_ok numThreads g shadowPass = None" .
next
  assume "CUR_POOL_SIZE g < 2 ^ 63"
  then have "CUR_POOL_SIZE g * 2 < 2 ^ 64" by simp
  then have "size_t (CUR_POOL_SIZE g * 2) = 2 * CUR_POOL_SIZE g"
    by (simp add: size_t_def mult.commute)
  then show "min (size_t (CUR_POOL_SIZE g * 2)) (MAX_POOL_SIZE g) =
        min (2 * CUR_POOL_SIZE g) (MAX_POOL_SIZE g)"
    by simp
qed


theorem ResetAll_contract_witness:
  "list_ex OutOfNodes (pools example_globals False) \<and>
   \<not> list_ex OutOfNodes (pools example_globals True) \<and>
   CUR_POOL_SIZE example_globals < MAX_POOL_SIZE example_globals \<and>
   ResetAll (\<lambda>n size. True) 2 example_globals True =
     Some (example_globals\<lparr>pools := (pools example_globals)(True :=
             map Reset (pools example_globals True))\<rparr>) \<and>
   ResetAll (\<lambda>n size. True) 2 (example_globals\<lparr>MAX_POOL_SIZE := 8\<rparr>) False =
     Some (example_globals\<lparr>MAX_POOL_SIZE := 8,
             pools := (pools example_globals)(False :=
               map Reset (pools example_globals False))\<rparr>) \<and>
   ResetAll (\<lambda>n size. True) 2 example_globals False =
     Some (example_globals\<lparr>CUR_POOL_SIZE := 16,
             pools := (pools example_globals)(False :=
               [CTriNodePool_ctor 8, CTriNodePool_ctor 8])\<rparr>) \<and>
   ResetAll (\<lambda>n size. size \<le> 6) 2 example_globals False =
     Some (example_globals\<lparr>CUR_POOL_SIZE := 12, MAX_POOL_SIZE := 12,
             pools := (pools example_globals)(False :=
               [CTriNodePool_ctor 6, CTriNodePool_ctor 6])\<rparr>) \<and>
   ResetAll (\<lambda>n size. False) 2 example_globals False = None \<and>
   min (size_t (CUR_POOL_SIZE example_globals * 2)) (MAX_POOL_SIZE example_globals) =
     min (2 * CUR_POOL_SIZE example_globals) (MAX_POOL_SIZE example_globals)"
proof -
  note sz = example_globals_sizes
  have lt: "CUR_POOL_SIZE example_globals < MAX_POOL_SIZE example_globals"
    by (simp add: sz)
  have a: "ResetAll (\<lambda>n size. True) 2 example_globals True =
     Some (example_globals\<lparr>pools := (pools example_globals)(True :=
             map Reset (pools example_globals True))\<rparr>)"
    using ResetAll_contract[of example_globals True "\<lambda>n size. True" 2] sz(2) by blast
  have capped: "list_ex OutOfNodes (pools (example_globals\<lparr>MAX_POOL_SIZE := 8\<rparr>) False) \<and>
      MAX_POOL_SIZE (example_globals\<lparr>MAX_POOL_SIZE := 8\<rparr>)
        \<le> CUR_POOL_SIZE (example_globals\<lparr>MAX_POOL_SIZE := 8\<rparr>)"
    using sz by simp
  have b: "ResetAll (\<lambda>n size. True) 2 (example_globals\<lparr>MAX_POOL_SIZE := 8\<rparr>) False =
     Some (example_globals\<lparr>MAX_POOL_SIZE := 8,
             pools := (pools example_globals)(False :=
               map Reset (pools example_globals False))\<rparr>)"
    using ResetAll_contract[of "example_globals\<lparr>MAX_POOL_SIZE := 8\<rparr>" False "\<lambda>n size. True" 2]
      capped by simp
  have first: "list_ex OutOfNodes (pools example_globals False) \<and>
      CUR_POOL_SIZE example_globals < MAX_POOL_SIZE example_globals \<and> 0 < (2::nat) \<and>
      (\<lambda>n size. True) (2::nat)
        (thread_pool_size 2
           (min (size_t (CUR_POOL_SIZE example_globals * 2)) (MAX_POOL_SIZE example_globals)))"
    using sz(1) lt by simp
  have c: "ResetAll (\<lambda>n size. True) 2 example_globals False =
     Some (example_globals\<lparr>CUR_POOL_SIZE := 16,
             pools := (pools example_globals)(False :=
               [CTriNodePool_ctor 8, CTriNodePool_ctor 8])\<rparr>)"
    using ResetAll_contract[of example_globals False "\<lambda>n size. True" 2] first
    by (simp add: sz(5) example_shares replicate_two)
  have second: "list_ex OutOfNodes (pools example_globals False) \<and>
      CUR_POOL_SIZE example_globals < MAX_POOL_SIZE example_globals \<and> 0 < (2::nat) \<and>
      (\<forall>i\<le>0. \<not> (\<lambda>n size. size \<le> 6) (2::nat)
         (thread_pool_size 2
            ((reduced ^^ i)
               (min (size_t (CUR_POOL_SIZE example_globals * 2)) (MAX_POOL_SIZE example_globals))))) \<and>
      (\<lambda>n size. size \<le> 6) (2::nat)
        (thread_pool_size 2
           ((reduced ^^ Suc 0)
              (min (size_t (CUR_POOL_SIZE example_globals * 2)) (MAX_POOL_SIZE example_globals))))"
    using sz(1) lt by (simp add: sz(5) example_shares)
  have d: "ResetAll (\<lambda>n size. size \<le> 6) 2 example_globals False =
     Some (example_globals\<lparr>CUR_POOL_SIZE := 12, MAX_POOL_SIZE := 12,
             pools := (pools example_globals)(False :=
               [CTriNodePool_ctor 6, CTriNodePool_ctor 6])\<rparr>)"
    using mp[OF conjunct1[OF conjunct2[OF conjunct2[OF conjunct2[OF
            ResetAll_contract[of example_globals False "\<lambda>n size. size \<le> 6" 2 0]]]]] second]
    by (simp add: sz(5) example_shares replicate_two)
  have never: "list_ex OutOfNodes (pools example_globals False) \<and>
      CUR_POOL_SIZE example_globals < MAX_POOL_SIZE example_globals \<and>
      ((2::nat) = 0 \<or>
       (\<forall>i. \<not> (\<lambda>n size. False) (2::nat)
          (thread_pool_size 2
             ((reduced ^^ i)
                (min (size_t (CUR_POOL_SIZE example_globals * 2)) (MAX_POOL_SIZE example_globals))))))"
    using sz(1) lt by simp
  have e: "ResetAll (\<lambda>n size. False) 2 example_globals False = None"
    using ResetAll_contract[of example_globals False "\<lambda>n size. False" 2] never by blast
  have "CUR_POOL_SIZE example_globals < 2 ^ 63" by (simp add: sz)
  with ResetAll_contract[of example_globals False "\<lambda>n size. True" 2]
  have f: "min (size_t (CUR_POOL_SIZE example_globals * 2)) (MAX_POOL_SIZE example_globals) =
     min (2 * CUR_POOL_SIZE example_globals) (MAX_POOL_SIZE example_globals)"
    by blast
  from sz(1,2) lt a b c d e f show ?thesis by simp
qed


theorem ResetAll_shrinks_on_bad_alloc_counterexample:
  "list_ex OutOfNodes (pools example_globals False) \<and>
   CUR_POOL_SIZE example_globals = 8 \<and> MAX_POOL_SIZE example_globals = 64 \<and>
   ResetAll (\<lambda>n size. size \<le> 6) 2 example_globals False =
     Some (example_globals\<lparr>CUR_POOL_SIZE := 12, MAX_POOL_SIZE := 12,
             pools := (pools example_globals)(False :=
               [CTriNodePool_ctor 6, CTriNodePool_ctor 6])\<rparr>)"
proof -
  have r: "ResetAll (\<lambda>n size. size \<le> 6) 2 example_globals False =
     InitPools (\<lambda>n size. size \<le> 6) 2
       (example_globals\<lparr>pools := (pools example_globals)(False :=
            map Reset (pools example_globals False))\<rparr>) False 16"
    using ResetAll_rebuild[OF example_globals_sizes(1), of "\<lambda>n size. size \<le> 6" 2]
    by (simp add: example_globals_sizes size_t_def)
  have no: "\<forall>i<1. \<not> (\<lambda>n size. size \<le> 6) (2::nat) (thread_pool_size 2 ((reduced ^^ i) 16))"
    by (simp add: example_shares)
  have ok: "(\<lambda>n size. size \<le> 6) (2::nat) (thread_pool_size 2 ((reduced ^^ 1) 16))"
    by (simp add: example_shares)
  have "ResetAll (\<lambda>n size. size \<le> 6) 2 example_globals False =
     Some (example_globals\<lparr>CUR_POOL_SIZE := 12, MAX_POOL_SIZE := 12,
             pools := (pools example_globals)(False :=
               [CTriNodePool_ctor 6, CTriNodePool_ctor 6])\<rparr>)"
    unfolding r
    by (subst InitPools_retry[where k = 1 and alloc_ok = "\<lambda>n size. size \<le> 6", OF _ no ok])
       (simp_all add: example_shares replicate_two)
  with example_globals_sizes show ?thesis by simp
qed


end
